theory Spec2Isabelle
  imports Main "HOL-Library.Char_ord" "HOL-Library.List_Lexorder"
begin

section \<open>Column names\<close>

text \<open>
  Column names are Python strings. The model covers ASCII names: \<open>isspace\<close> lists the
  ASCII characters that \<^verbatim>\<open>str.strip()\<close> removes, and the case conversions act on
  the letters A to Z and a to z and leave every other character as it is.
\<close>

definition isspace :: "char \<Rightarrow> bool" where
  "isspace c = (c \<in> set [CHR 0x20, CHR 0x09, CHR 0x0A, CHR 0x0B, CHR 0x0C, CHR 0x0D,
                          CHR 0x1C, CHR 0x1D, CHR 0x1E, CHR 0x1F])"

definition lower_char :: "char \<Rightarrow> char" where
  "lower_char c =
     (if CHR ''A'' \<le> c \<and> c \<le> CHR ''Z'' then char_of (of_char c + (32::nat)) else c)"

definition upper_char :: "char \<Rightarrow> char" where
  "upper_char c =
     (if CHR ''a'' \<le> c \<and> c \<le> CHR ''z'' then char_of (of_char c - (32::nat)) else c)"

definition strip :: "string \<Rightarrow> string" where
  "strip s = rev (dropWhile isspace (rev (dropWhile isspace s)))"

definition lower :: "string \<Rightarrow> string" where
  "lower s = map lower_char s"

text \<open>\<^verbatim>\<open>key.capitalize()\<close>: the first character in upper case, the rest in lower case.\<close>

definition capitalize :: "string \<Rightarrow> string" where
  "capitalize s = (case s of [] \<Rightarrow> [] | c # cs \<Rightarrow> upper_char c # lower cs)"

text \<open>\<^verbatim>\<open>sub in s\<close> on strings: \<open>sub\<close> occurs in \<open>s\<close> as a contiguous substring.\<close>

fun contains :: "string \<Rightarrow> string \<Rightarrow> bool" where
  "contains sub [] = (sub = [])"
| "contains sub (c # cs) = (take (length sub) (c # cs) = sub \<or> contains sub cs)"

section \<open>Data frames\<close>

text \<open>
  A timestamp is the calendar date that \<^verbatim>\<open>pd.to_datetime\<close> yields together with the
  time of day, which the program never reads.
\<close>

record timestamp =
  year :: nat
  month :: nat
  day :: nat
  time_of_day :: nat

datatype cell = Txt string | Num int | Stamp timestamp

text \<open>
  A data frame is the list of its columns in column order; a column is its label and its
  values in row order. Labels may repeat, as they may in pandas.
\<close>

type_synonym column = "string \<times> cell list"
type_synonym frame = "column list"

definition columns :: "frame \<Rightarrow> string list" where
  "columns df = map fst df"

text \<open>\<^verbatim>\<open>sales_data.columns = sales_data.columns.str.strip().str.lower()\<close>\<close>

definition strip_lower :: "frame \<Rightarrow> frame" where
  "strip_lower df = map (\<lambda>(n, v). (lower (strip n), v)) df"

text \<open>
  \<^verbatim>\<open>sales_data.rename(columns={old: new}, inplace=True)\<close>: every column labelled
  \<open>old\<close> is relabelled; when no column has that label nothing happens and nothing is raised.
\<close>

definition rename :: "string \<Rightarrow> string \<Rightarrow> frame \<Rightarrow> frame" where
  "rename old new df = map (\<lambda>(n, v). (if n = old then new else n, v)) df"

text \<open>
  The outcomes that end normalization without a table: the program's own report
  (\<^verbatim>\<open>st.error\<close> naming the field, \<^verbatim>\<open>st.write\<close> of the available columns,
  \<^verbatim>\<open>st.stop()\<close>), and the exceptions that pandas raises and the program does not catch.
\<close>

datatype error =
    MissingColumn string "string list"
  | DateParseError
  | DuplicateKeys
  | KeyError

text \<open>
  \<^verbatim>\<open>pd.to_datetime\<close> belongs to pandas. Its parsing of a value that is not yet a
  timestamp is the parameter \<open>parse\<close>, which sees the whole column (pandas infers one format
  for a column) and the value, and answers \<open>None\<close> where pandas raises. A value that is
  already a timestamp is returned as it is.
\<close>

type_synonym parser = "cell list \<Rightarrow> cell \<Rightarrow> timestamp option"

definition to_datetime_cell :: "(cell \<Rightarrow> timestamp option) \<Rightarrow> cell \<Rightarrow> cell option" where
  "to_datetime_cell p c = (case c of Stamp t \<Rightarrow> Some (Stamp t) | _ \<Rightarrow> map_option Stamp (p c))"

definition to_datetime :: "parser \<Rightarrow> cell list \<Rightarrow> cell list option" where
  "to_datetime parse v = those (map (to_datetime_cell (parse v)) v)"

text \<open>
  \<^verbatim>\<open>sales_data["Date"] = pd.to_datetime(sales_data["Date"])\<close>. With one column
  labelled Date its values are converted in place. With several, the selection is a frame
  and \<^verbatim>\<open>pd.to_datetime\<close> raises ValueError (duplicate keys).
\<close>

definition convert_date :: "parser \<Rightarrow> frame \<Rightarrow> error + frame" where
  "convert_date parse df =
     (case filter (\<lambda>(n, v). n = ''Date'') df of
        [] \<Rightarrow> Inl KeyError
      | [(n, v)] \<Rightarrow>
          (case to_datetime parse v of
             None \<Rightarrow> Inl DateParseError
           | Some v' \<Rightarrow> Inr (map (\<lambda>(m, w). (m, if m = ''Date'' then v' else w)) df))
      | _ \<Rightarrow> Inl DuplicateKeys)"

section \<open>Schema normalization\<close>

text \<open>\<^verbatim>\<open>[col for col in sales_data.columns if key in col]\<close>\<close>

definition matching :: "string \<Rightarrow> frame \<Rightarrow> string list" where
  "matching key df = filter (contains key) (columns df)"

text \<open>Lines 83 to 93: the first resolution of the date column.\<close>

definition identify_date :: "parser \<Rightarrow> frame \<Rightarrow> error + frame" where
  "identify_date parse sales_data =
     (let df = strip_lower sales_data;
          date_col = matching ''date'' df
      in case date_col of
           [] \<Rightarrow> Inl (MissingColumn ''Date'' (columns df))
         | d # _ \<Rightarrow> convert_date parse (rename d ''Date'' df))"

text \<open>
  Lines 101 to 113: \<open>column_map\<close> is built once, from the labels as they are before the
  loop renames anything; the loop then visits the keys in the order date, sales, category.
\<close>

definition column_map :: "frame \<Rightarrow> (string \<times> string list) list" where
  "column_map df =
     [(''date'', matching ''date'' df),
      (''sales'', matching ''sales'' df),
      (''category'', matching ''category'' df)]"

fun rename_loop :: "(string \<times> string list) list \<Rightarrow> frame \<Rightarrow> error + frame" where
  "rename_loop [] df = Inr df"
| "rename_loop ((key, cols) # rest) df =
     (case cols of
        [] \<Rightarrow> Inl (MissingColumn (capitalize key) (columns df))
      | c # _ \<Rightarrow> rename_loop rest (rename c (capitalize key) df))"

text \<open>Lines 98 to 116: the second resolution and the second conversion.\<close>

definition identify_columns :: "parser \<Rightarrow> frame \<Rightarrow> error + frame" where
  "identify_columns parse sales_data =
     (let df = strip_lower sales_data
      in case rename_loop (column_map df) df of
           Inl e \<Rightarrow> Inl e
         | Inr df' \<Rightarrow> convert_date parse df')"

text \<open>Lines 83 to 116.\<close>

definition normalization :: "parser \<Rightarrow> frame \<Rightarrow> error + frame" where
  "normalization parse sales_data =
     (case identify_date parse sales_data of
        Inl e \<Rightarrow> Inl e
      | Inr df \<Rightarrow> identify_columns parse df)"

text \<open>
  A reader of calendar dates written YYYY-MM-DD, which pandas reads as that date at
  midnight. It rejects every other value, so it accepts less than pandas does; it is the
  parser of the examples, and it states what the text of a formatted date means.
\<close>

definition digit :: "char \<Rightarrow> nat option" where
  "digit c = (if CHR ''0'' \<le> c \<and> c \<le> CHR ''9'' then Some (of_char c - 48) else None)"

fun number :: "string \<Rightarrow> nat option" where
  "number [] = None"
| "number [c] = digit c"
| "number (c # cs) =
     (case (digit c, number cs) of
        (Some d, Some n) \<Rightarrow> Some (d * 10 ^ length cs + n)
      | _ \<Rightarrow> None)"

definition iso_date :: "cell \<Rightarrow> timestamp option" where
  "iso_date c =
     (case c of
        Txt s \<Rightarrow>
          (if length s = 10 \<and> s ! 4 = CHR ''-'' \<and> s ! 7 = CHR ''-'' then
             (case (number (take 4 s), number (take 2 (drop 5 s)), number (drop 8 s)) of
                (Some y, Some m, Some d) \<Rightarrow>
                  (if 1 \<le> m \<and> m \<le> 12 \<and> 1 \<le> d \<and> d \<le> 31
                   then Some \<lparr>year = y, month = m, day = d, time_of_day = 0\<rparr> else None)
              | _ \<Rightarrow> None)
           else None)
      | _ \<Rightarrow> None)"

definition iso_parser :: parser where
  "iso_parser v c = iso_date c"

text \<open>
  For the statements: the labels after trimming and lower-casing, and the position of the
  first label that contains a key (the number of labels when none does).
\<close>

definition std_names :: "frame \<Rightarrow> string list" where
  "std_names df = columns (strip_lower df)"

definition first_match :: "string \<Rightarrow> string list \<Rightarrow> nat" where
  "first_match key names = length (takeWhile (\<lambda>n. \<not> contains key n) names)"

section \<open>Input acquisition\<close>

text \<open>
  The widget values of one run. \<open>uploaded_file\<close> is the table that \<^verbatim>\<open>pd.read_csv\<close>
  reads from the upload, \<open>None\<close> without an upload. \<open>connect\<close> is the value of the
  Connect button. \<open>fetched\<close> is what connecting and querying give when they are tried: the
  message of a \<^verbatim>\<open>mysql.connector.Error\<close>, or the rows of \<^verbatim>\<open>cursor.fetchall()\<close>.
\<close>

record 'r widgets =
  uploaded_file :: "frame option"
  use_db :: bool
  connect :: bool
  fetched :: "string + 'r list"

text \<open>The two ways in which lines 38 to 79 end the run with \<^verbatim>\<open>st.stop()\<close>.\<close>

datatype notice =
    ConnectionFailed string
  | PleaseUpload

text \<open>
  Lines 36 to 79. The result \<open>Inr None\<close> is the run going on with \<^verbatim>\<open>sales_data = None\<close>.
  \<^verbatim>\<open>pd.DataFrame(rows)\<close> belongs to pandas and is the parameter \<open>DataFrame\<close>.
\<close>

definition load_data :: "('r list \<Rightarrow> frame) \<Rightarrow> 'r widgets \<Rightarrow> notice + frame option" where
  "load_data DataFrame w =
     (if use_db w then
        (if connect w then
           (case fetched w of
              Inl e \<Rightarrow> Inl (ConnectionFailed e)
            | Inr rows \<Rightarrow>
                (if rows \<noteq> [] then Inr (Some (DataFrame rows))
                 else Inr (Some [(''Date'', []), (''Category'', []), (''Sales'', [])])))
         else Inr None)
      else
        (case uploaded_file w of
           Some df \<Rightarrow> Inr (Some df)
         | None \<Rightarrow> Inl PleaseUpload))"

text \<open>
  Lines 36 to 116. Line 83 reads \<^verbatim>\<open>sales_data.columns\<close>; on \<^verbatim>\<open>None\<close> that raises
  AttributeError, which nothing catches.
\<close>

datatype outcome =
    Stopped notice
  | AttributeError
  | Failed error
  | Table frame

definition load_and_normalize ::
  "parser \<Rightarrow> ('r list \<Rightarrow> frame) \<Rightarrow> 'r widgets \<Rightarrow> outcome" where
  "load_and_normalize parse DataFrame w =
     (case load_data DataFrame w of
        Inl n \<Rightarrow> Stopped n
      | Inr None \<Rightarrow> AttributeError
      | Inr (Some sales_data) \<Rightarrow>
          (case normalization parse sales_data of
             Inl e \<Rightarrow> Failed e
           | Inr df \<Rightarrow> Table df))"

section \<open>The sales table\<close>

text \<open>
  From line 121 on the program reads the columns Date, Category and Sales. A row of the
  table is a record of these three values; the other columns of the row are the record's
  extension. The Sales column of a row table is a column of whole numbers, which pandas
  holds as signed 64-bit integers: a value is the integer it stands for, and a sum of the
  column is reduced to the 64-bit range by \<open>wrap64\<close> below.
\<close>

record sales_record =
  Date :: timestamp
  Category :: string
  Sales :: int

type_synonym 'a table = "'a sales_record_scheme list"

text \<open>\<^verbatim>\<open>Series.unique()\<close>: the distinct values in the order of their first appearance.\<close>

definition unique :: "'a list \<Rightarrow> 'a list" where
  "unique xs = rev (remdups (rev xs))"

text \<open>
  Lines 123 to 129: one checkbox for each category; \<open>checkbox c\<close> is the value of the
  checkbox labelled \<open>c\<close>.
\<close>

definition selected_categories :: "(string \<Rightarrow> bool) \<Rightarrow> 'a table \<Rightarrow> string list" where
  "selected_categories checkbox sales_data =
     (if sales_data \<noteq> [] then filter checkbox (unique (map Category sales_data)) else [])"

text \<open>Line 132.\<close>

definition filtered_data :: "'a table \<Rightarrow> string list \<Rightarrow> 'a table" where
  "filtered_data sales_data selected =
     (if selected \<noteq> [] then filter (\<lambda>r. Category r \<in> set selected) sales_data else [])"

section \<open>Metrics\<close>

text \<open>The decimal text of an integer inside an f-string.\<close>

function digits :: "nat \<Rightarrow> string" where
  "digits n =
     (if n < 10 then [char_of (48 + n)] else digits (n div 10) @ [char_of (48 + n mod 10)])"
  by pat_completeness auto
termination
  by (relation "measure id") auto

declare digits.simps [simp del]

definition str :: "int \<Rightarrow> string" where
  "str i = (if i < 0 then CHR ''-'' # digits (nat (- i)) else digits (nat i))"

text \<open>
  The result of an addition of signed 64-bit integers, which numpy carries out without an
  overflow check: the sum modulo \<open>2 ^ 64\<close>, read as a signed value.
\<close>

definition wrap64 :: "int \<Rightarrow> int" where
  "wrap64 x = (x + 2 ^ 63) mod 2 ^ 64 - 2 ^ 63"

text \<open>
  \<^verbatim>\<open>filtered_data['Sales']\<close> is a series with a type of its own, which the empty
  selection \<^verbatim>\<open>iloc[0:0]\<close> keeps. For a table of rows it is \<open>Int64\<close> of the Sales values
  (\<open>sales_series\<close>). The values of a \<open>Float64\<close> series are floating-point numbers, which
  are not modelled: the text that Python prints for the sum of a non-empty series of them
  is the parameter \<open>float_text\<close>; the sum of the empty one is 0.0.
\<close>

datatype 'f series = Int64 "int list" | Float64 "'f list"

definition sales_series :: "'a table \<Rightarrow> 'f series" where
  "sales_series df = Int64 (map Sales df)"

text \<open>Line 139: \<^verbatim>\<open>f"{filtered_data['Sales'].sum()} units"\<close>.\<close>

definition total_sales :: "('f list \<Rightarrow> string) \<Rightarrow> 'f series \<Rightarrow> string" where
  "total_sales float_text sales =
     (case sales of
        Int64 xs \<Rightarrow> str (wrap64 (sum_list xs))
      | Float64 xs \<Rightarrow> (if xs = [] then ''0.0'' else float_text xs)) @ '' units''"

text \<open>For the statements: the integer that a decimal text denotes.\<close>

definition read_int :: "string \<Rightarrow> int option" where
  "read_int s =
     (case s of
        [] \<Rightarrow> None
      | c # cs \<Rightarrow>
          (if c = CHR ''-'' then map_option (\<lambda>n. - int n) (number cs)
           else map_option int (number s)))"

text \<open>
  \<^verbatim>\<open>Series.idxmax()\<close> on a series given as its (label, value) pairs: the label of the
  first entry that holds the maximum; on an empty series pandas raises, which is \<open>None\<close>.
\<close>

definition idxmax :: "('k \<times> int) list \<Rightarrow> 'k option" where
  "idxmax series =
     (case series of
        [] \<Rightarrow> None
      | (k, v) # rest \<Rightarrow>
          (let m = fold max (map snd rest) v
           in map_option fst (find (\<lambda>(k, v). v = m) series)))"

text \<open>
  \<^verbatim>\<open>filtered_data.groupby("Category")["Sales"].sum()\<close>: one entry for each category,
  the categories in sorted order, each with the 64-bit sum of its Sales values.
\<close>

definition groupby_sum :: "'a table \<Rightarrow> (string \<times> int) list" where
  "groupby_sum df =
     map (\<lambda>c. (c, wrap64 (sum_list (map Sales (filter (\<lambda>r. Category r = c) df)))))
         (sort (remdups (map Category df)))"

text \<open>Line 140.\<close>

definition top_selling_category :: "'a table \<Rightarrow> string option" where
  "top_selling_category df = (if df \<noteq> [] then idxmax (groupby_sum df) else Some ''N/A'')"

text \<open>
  \<^verbatim>\<open>strftime('%Y-%m-%d')\<close>. The years of pandas timestamps have four digits.
\<close>

definition zero_pad :: "nat \<Rightarrow> nat \<Rightarrow> string" where
  "zero_pad w n = replicate (w - length (digits n)) (CHR ''0'') @ digits n"

definition strftime :: "'a timestamp_scheme \<Rightarrow> string" where
  "strftime t = zero_pad 4 (year t) @ ''-'' @ zero_pad 2 (month t) @ ''-'' @ zero_pad 2 (day t)"

text \<open>
  \<^verbatim>\<open>filtered_data.loc[label, "Date"]\<close>. The rows carry the labels 0, 1, ... of their
  positions (row labels are unique, so the row found by its label is the row at the
  position); a label that no row carries raises, which is \<open>None\<close>.
\<close>

definition loc :: "'a list \<Rightarrow> nat \<Rightarrow> 'a option" where
  "loc df label = (if label < length df then Some (df ! label) else None)"

text \<open>Line 141.\<close>

definition highest_sales_day :: "'a table \<Rightarrow> string option" where
  "highest_sales_day df =
     (if df \<noteq> [] then
        (case idxmax (zip [0..<length df] (map Sales df)) of
           None \<Rightarrow> None
         | Some label \<Rightarrow> map_option (\<lambda>r. strftime (Date r)) (loc df label))
      else Some ''N/A'')"

section \<open>Forecast and data table\<close>

text \<open>
  What lines 153 to 172 do, in order: the error message, the call that fits the external
  model on the two-column series and predicts, the forecast chart, the data table.
  The model is the parameter \<open>prophet\<close>; it answers \<open>None\<close> where fitting or predicting
  raises, and then the run ends there.
\<close>

datatype ('a, 'f) event =
    StError string
  | Fit "(timestamp \<times> int) list" nat
  | ForecastChart 'f
  | StDataframe "'a table"

datatype status = Completed | Raised

definition forecast ::
  "((timestamp \<times> int) list \<Rightarrow> nat \<Rightarrow> 'f option) \<Rightarrow> 'a table \<Rightarrow> nat
     \<Rightarrow> ('a, 'f) event list \<times> status" where
  "forecast prophet filtered forecast_period =
     (if filtered = [] then ([StError ''No data available for forecasting.''], Completed)
      else
        (let df_prophet = map (\<lambda>r. (Date r, Sales r)) filtered
         in case prophet df_prophet forecast_period of
              None \<Rightarrow> ([Fit df_prophet forecast_period], Raised)
            | Some fc \<Rightarrow> ([Fit df_prophet forecast_period, ForecastChart fc], Completed)))"

definition forecast_and_table ::
  "((timestamp \<times> int) list \<Rightarrow> nat \<Rightarrow> 'f option) \<Rightarrow> 'a table \<Rightarrow> nat
     \<Rightarrow> ('a, 'f) event list \<times> status" where
  "forecast_and_table prophet filtered forecast_period =
     (case forecast prophet filtered forecast_period of
        (events, Completed) \<Rightarrow> (events @ [StDataframe filtered], Completed)
      | (events, Raised) \<Rightarrow> (events, Raised))"

lemma of_char_lower_char:
  "of_char (lower_char c) = (if 65 \<le> (of_char c::nat) \<and> (of_char c::nat) \<le> 90 then of_char c + 32 else (of_char c :: nat))"
  by (simp add: lower_char_def less_eq_char_def)

lemma isspace_iff: "isspace c \<longleftrightarrow> (of_char c :: nat) \<in> {32, 9, 10, 11, 12, 13, 28, 29, 30, 31}"
proof -
  have "\<And>d. (c = d) = ((of_char c :: nat) = of_char d)" by simp
  then show ?thesis unfolding isspace_def by (simp del: of_char_eq_iff)
qed

lemma isspace_lower_char: "isspace (lower_char c) = isspace c"
  unfolding isspace_iff of_char_lower_char by auto

lemma lower_char_idem: "lower_char (lower_char c) = lower_char c"
proof -
  have "(of_char (lower_char (lower_char c)) :: nat) = of_char (lower_char c)"
    unfolding of_char_lower_char by auto
  then show ?thesis by simp
qed

lemma lower_char_not_upper: "65 \<le> (of_char c :: nat) \<Longrightarrow> (of_char c :: nat) \<le> 90 \<Longrightarrow> lower_char x \<noteq> c"
proof
  assume a: "65 \<le> (of_char c :: nat)" "(of_char c :: nat) \<le> 90" "lower_char x = c"
  have "(of_char (lower_char x) :: nat) < 65 \<or> 90 < (of_char (lower_char x) :: nat)"
    unfolding of_char_lower_char by auto
  with a show False by auto
qed

lemma dropWhile_isspace_lower: "dropWhile isspace (lower s) = lower (dropWhile isspace s)"
  by (induction s) (auto simp: lower_def isspace_lower_char)

lemma strip_lower_commute: "strip (lower s) = lower (strip s)"
  unfolding strip_def
  by (metis dropWhile_isspace_lower lower_def rev_map)

lemma lower_idem: "lower (lower s) = lower s"
  by (simp add: lower_def lower_char_idem)

lemma dropWhile_rev_dropWhile:
  "dropWhile P (rev (dropWhile P (rev (dropWhile P s)))) = rev (dropWhile P (rev (dropWhile P s)))"
proof (cases "dropWhile P s")
  case Nil
  then show ?thesis by (simp del: dropWhile_eq_Nil_conv)
next
  case (Cons a t)
  then have na: "\<not> P a" by (metis hd_dropWhile list.distinct(1) list.sel(1))
  have "rev (a # t) = rev t @ [a]" by simp
  then have "dropWhile P (rev (a # t)) = dropWhile P (rev t) @ [a] \<or> (\<exists>u. dropWhile P (rev (a # t)) = u @ [a])"
    using na by (metis dropWhile_append dropWhile_append3 append_Nil dropWhile.simps)
  then obtain u where "dropWhile P (rev (a # t)) = u @ [a]" by blast
  then show ?thesis using Cons na by simp
qed

lemma strip_idem: "strip (strip s) = strip s"
  unfolding strip_def by (simp add: dropWhile_rev_dropWhile)

lemma std_idem: "lower (strip (lower (strip n))) = lower (strip n)"
  by (simp add: strip_lower_commute strip_idem lower_idem)

lemma columns_strip_lower: "columns (strip_lower df) = map (\<lambda>n. lower (strip n)) (columns df)"
  by (simp add: columns_def strip_lower_def case_prod_beta comp_def)

lemma columns_rename: "columns (rename a b df) = map (\<lambda>n. if n = a then b else n) (columns df)"
  by (simp add: columns_def rename_def case_prod_beta comp_def)

lemma values_strip_lower: "map snd (strip_lower df) = map snd df"
  by (simp add: strip_lower_def case_prod_beta comp_def)

lemma values_rename: "map snd (rename a b df) = map snd df"
  by (simp add: rename_def case_prod_beta comp_def)

lemma length_columns: "length (columns df) = length df"
  by (simp add: columns_def)

lemma canon_lower:
  "lower (strip ''Date'') = ''date''" "lower (strip ''Sales'') = ''sales''"
  "lower (strip ''Category'') = ''category''"
  by code_simp+

lemma canon_capitalize:
  "capitalize ''date'' = ''Date''" "capitalize ''sales'' = ''Sales''"
  "capitalize ''category'' = ''Category''"
  by code_simp+

lemma std_ne_canon:
  "lower (strip n) \<noteq> ''Date''" "lower (strip n) \<noteq> ''Sales''" "lower (strip n) \<noteq> ''Category''"
proof -
  have "lower (strip ''Date'') \<noteq> ''Date''" "lower (strip ''Sales'') \<noteq> ''Sales''"
       "lower (strip ''Category'') \<noteq> ''Category''"
    by code_simp+
  then show "lower (strip n) \<noteq> ''Date''" "lower (strip n) \<noteq> ''Sales''" "lower (strip n) \<noteq> ''Category''"
    by (metis std_idem)+
qed

lemma contains_canon:
  "contains ''date'' ''date''" "contains ''sales'' ''sales''" "contains ''category'' ''category''"
  "\<not> contains ''date'' ''sales''" "\<not> contains ''date'' ''category''"
  "\<not> contains ''sales'' ''date''" "\<not> contains ''sales'' ''category''"
  "\<not> contains ''category'' ''date''" "\<not> contains ''category'' ''sales''"
  "\<not> contains ''date'' ''Sales''" "\<not> contains ''date'' ''Category''"
  "\<not> contains ''sales'' ''Date''" "\<not> contains ''sales'' ''Category''"
  "\<not> contains ''category'' ''Date''" "\<not> contains ''category'' ''Sales''"
  by code_simp+

lemma those_map_Some:
  "those (map f v) = Some v' \<Longrightarrow> length v' = length v \<and> (\<forall>i<length v. f (v ! i) = Some (v' ! i))"
proof (induction v arbitrary: v')
  case Nil
  then show ?case by simp
next
  case (Cons a v)
  then show ?case
    by (auto split: option.splits simp: nth_Cons split: nat.splits)
qed

lemma those_map_id: "(\<forall>c\<in>set v. f c = Some c) \<Longrightarrow> those (map f v) = Some v"
  by (induction v) auto

lemma to_datetime_length: "to_datetime parse v = Some v' \<Longrightarrow> length v' = length v"
  unfolding to_datetime_def by (drule those_map_Some) simp

lemma to_datetime_stamps:
  assumes "to_datetime parse v = Some v'"
  shows "\<forall>c\<in>set v'. \<exists>t. c = Stamp t"
proof
  fix c assume "c \<in> set v'"
  then obtain i where i: "i < length v'" "v' ! i = c" by (auto simp: in_set_conv_nth)
  from assms have "length v' = length v" "\<forall>i<length v. to_datetime_cell (parse v) (v ! i) = Some (v' ! i)"
    unfolding to_datetime_def by (auto dest: those_map_Some)
  with i have "to_datetime_cell (parse v) (v ! i) = Some c" by auto
  then show "\<exists>t. c = Stamp t"
    by (cases "v ! i") (auto simp: to_datetime_cell_def)
qed

lemma to_datetime_fixed:
  assumes "\<forall>c\<in>set v. \<exists>t. c = Stamp t"
  shows "to_datetime parse v = Some v"
  unfolding to_datetime_def
  by (rule those_map_id) (use assms in \<open>auto simp: to_datetime_cell_def\<close>)

lemma to_datetime_twice:
  "to_datetime parse v = Some v' \<Longrightarrow> to_datetime parse' v' = Some v'"
  by (rule to_datetime_fixed) (rule to_datetime_stamps)

lemma filter_single_nth:
  assumes "filter P xs = [y]" "i < length xs" "P (xs ! i)"
  shows "xs ! i = y"
proof -
  have "xs ! i \<in> set (filter P xs)" using assms(2,3) by simp
  then show ?thesis unfolding assms(1) by simp
qed

lemma convert_date_Inr:
  assumes "convert_date parse df = Inr df'"
  shows "length df' = length df"
    and "columns df' = columns df"
    and "count_list (columns df) ''Date'' = 1"
    and "\<And>i. i < length df \<Longrightarrow> fst (df ! i) \<noteq> ''Date'' \<Longrightarrow> snd (df' ! i) = snd (df ! i)"
    and "\<And>i. i < length df \<Longrightarrow> fst (df ! i) = ''Date'' \<Longrightarrow>
           to_datetime parse (snd (df ! i)) = Some (snd (df' ! i))"
proof -
  from assms obtain n v v' where
    f: "filter (\<lambda>(n, v). n = ''Date'') df = [(n, v)]" and
    t: "to_datetime parse v = Some v'" and
    d: "df' = map (\<lambda>(m, w). (m, if m = ''Date'' then v' else w)) df"
    unfolding convert_date_def
    by (auto split: list.splits option.splits)
  show "length df' = length df" using d by simp
  show "columns df' = columns df" using d by (simp add: columns_def case_prod_beta comp_def)
  have "(\<lambda>(n, v). n = ''Date'') = (\<lambda>x :: column. fst x = ''Date'')" by auto
  with f have "length (filter (\<lambda>x. fst x = ''Date'') df) = 1" by simp
  moreover have "filter ((=) ''Date'') (map fst df) = map fst (filter (\<lambda>x. fst x = ''Date'') df)"
    by (induction df) auto
  ultimately have "length (filter ((=) ''Date'') (map fst df)) = 1"
    by simp
  then show "count_list (columns df) ''Date'' = 1"
    by (simp add: columns_def count_list_eq_length_filter del: length_filter_map) 
  show "\<And>i. i < length df \<Longrightarrow> fst (df ! i) \<noteq> ''Date'' \<Longrightarrow> snd (df' ! i) = snd (df ! i)"
    using d by (simp add: case_prod_beta)
  show "\<And>i. i < length df \<Longrightarrow> fst (df ! i) = ''Date'' \<Longrightarrow>
           to_datetime parse (snd (df ! i)) = Some (snd (df' ! i))"
  proof -
    fix i assume i: "i < length df" "fst (df ! i) = ''Date''"
    then have "df ! i = (n, v)"
      using filter_single_nth [OF f, of i] by (simp add: case_prod_beta)
    then show "to_datetime parse (snd (df ! i)) = Some (snd (df' ! i))"
      using d t i by (simp add: case_prod_beta)
  qed
qed

lemma normalization_Inr:
  assumes "normalization parse df = Inr df'"
  obtains d ds df2 d' ds' s ss c cs where
    "matching ''date'' (strip_lower df) = d # ds"
    "convert_date parse (rename d ''Date'' (strip_lower df)) = Inr df2"
    "matching ''date'' (strip_lower df2) = d' # ds'"
    "matching ''sales'' (strip_lower df2) = s # ss"
    "matching ''category'' (strip_lower df2) = c # cs"
    "convert_date parse
       (rename c ''Category'' (rename s ''Sales'' (rename d' ''Date'' (strip_lower df2)))) = Inr df'"
  using assms
  unfolding normalization_def identify_date_def identify_columns_def column_map_def Let_def
  by (auto split: sum.splits list.splits simp: canon_capitalize)

lemma nth_strip_lower:
  "i < length df \<Longrightarrow> strip_lower df ! i = (lower (strip (fst (df ! i))), snd (df ! i))"
  by (simp add: strip_lower_def case_prod_beta)

lemma nth_rename:
  "i < length df \<Longrightarrow> rename a b df ! i = (if fst (df ! i) = a then b else fst (df ! i), snd (df ! i))"
  by (simp add: rename_def case_prod_beta)

lemma length_strip_lower: "length (strip_lower df) = length df"
  by (simp add: strip_lower_def)

lemma length_rename: "length (rename a b df) = length df"
  by (simp add: rename_def)

lemma columns_eq_nth:
  assumes "columns a = columns b" "i < length a"
  shows "fst (a ! i) = fst (b ! i)"
proof -
  have "length a = length b" using assms(1) by (metis length_columns)
  then have "columns a ! i = fst (a ! i)" "columns b ! i = fst (b ! i)"
    using assms(2) by (simp_all add: columns_def)
  then show ?thesis using assms(1) by simp
qed

lemma filter_map_swap:
  assumes "P a = P b"
  shows "filter P (map (\<lambda>n. if n = a then b else n) xs) = map (\<lambda>n. if n = a then b else n) (filter P xs)"
  using assms by (induction xs) auto

lemma matching_head: "matching key df = x # xs \<Longrightarrow> contains key x \<and> x \<in> set (columns df)"
  unfolding matching_def by (metis filter_eq_ConsD in_set_conv_decomp)

text \<open>The labels after the first conversion and the second standardisation.\<close>

lemma columns_second_pass:
  assumes "matching ''date'' (strip_lower df) = d # ds"
    and "convert_date parse (rename d ''Date'' (strip_lower df)) = Inr df2"
  shows "columns (strip_lower df2) =
         map (\<lambda>n. if n = d then ''date'' else n) (columns (strip_lower df))"
proof -
  have "columns df2 = columns (rename d ''Date'' (strip_lower df))"
    using convert_date_Inr(2) [OF assms(2)] .
  then have "columns (strip_lower df2) =
     map (\<lambda>n. lower (strip n)) (map (\<lambda>n. if n = d then ''Date'' else n) (columns (strip_lower df)))"
    by (simp add: columns_strip_lower columns_rename)
  also have "\<dots> = map (\<lambda>n. if n = d then ''date'' else n) (columns (strip_lower df))"
    by (simp add: columns_strip_lower comp_def canon_lower std_idem)
  finally show ?thesis .
qed

lemma second_date_match:
  assumes "matching ''date'' (strip_lower df) = d # ds"
    and "convert_date parse (rename d ''Date'' (strip_lower df)) = Inr df2"
    and "matching ''date'' (strip_lower df2) = d' # ds'"
  shows "d' = ''date''"
proof -
  have cd: "contains ''date'' d" using matching_head [OF assms(1)] by simp
  have "matching ''date'' (strip_lower df2) =
        map (\<lambda>n. if n = d then ''date'' else n) (matching ''date'' (strip_lower df))"
    unfolding matching_def columns_second_pass [OF assms(1,2)]
    by (rule filter_map_swap) (simp add: cd contains_canon)
  then show ?thesis using assms(1,3) by simp
qed

lemma normalization_nth:
  assumes "normalization parse df = Inr df'" and i: "i < length df"
  shows "length df' = length df"
    and "fst (df' ! i) \<noteq> ''Date'' \<Longrightarrow> snd (df' ! i) = snd (df ! i)"
    and "fst (df' ! i) = ''Date'' \<Longrightarrow> to_datetime parse (snd (df ! i)) = Some (snd (df' ! i))"
    and "fst (df' ! i) \<in> {lower (strip (fst (df ! i))), ''Date'', ''Sales'', ''Category''}"
    and "\<not> contains ''date'' (lower (strip (fst (df ! i)))) \<Longrightarrow>
         \<not> contains ''sales'' (lower (strip (fst (df ! i)))) \<Longrightarrow>
         \<not> contains ''category'' (lower (strip (fst (df ! i)))) \<Longrightarrow>
         fst (df' ! i) = lower (strip (fst (df ! i)))"
proof -
  from assms(1) obtain d ds df2 d' ds' s ss c cs where
    m1: "matching ''date'' (strip_lower df) = d # ds" and
    c1: "convert_date parse (rename d ''Date'' (strip_lower df)) = Inr df2" and
    m2: "matching ''date'' (strip_lower df2) = d' # ds'" and
    ms: "matching ''sales'' (strip_lower df2) = s # ss" and
    mc: "matching ''category'' (strip_lower df2) = c # cs" and
    c2: "convert_date parse
       (rename c ''Category'' (rename s ''Sales'' (rename d' ''Date'' (strip_lower df2)))) = Inr df'"
    by (rule normalization_Inr)
  define n where "n = lower (strip (fst (df ! i)))"
  define B where "B = rename d ''Date'' (strip_lower df)"
  define F where "F = rename c ''Category'' (rename s ''Sales'' (rename ''date'' ''Date'' (strip_lower df2)))"
  have d': "d' = ''date''" using second_date_match [OF m1 c1 m2] .
  have l2: "length df2 = length df"
    using convert_date_Inr(1) [OF c1] by (simp add: length_rename length_strip_lower)
  have l': "length df' = length df"
    using convert_date_Inr(1) [OF c2] l2 by (simp add: length_rename length_strip_lower)
  show "length df' = length df" by (rule l')
  have nD: "n \<noteq> ''Date''" by (simp add: n_def std_ne_canon)
  have Bi: "B ! i = (if n = d then ''Date'' else n, snd (df ! i))"
    using i by (simp add: B_def nth_rename nth_strip_lower length_strip_lower n_def)
  have iB: "i < length B" using i by (simp add: B_def length_rename length_strip_lower)
  have f2: "fst (df2 ! i) = (if n = d then ''Date'' else n)"
    using columns_eq_nth [OF convert_date_Inr(2) [OF c1], of i] Bi i l2
    by (simp add: B_def)
  have v2a: "n \<noteq> d \<Longrightarrow> snd (df2 ! i) = snd (df ! i)"
    using convert_date_Inr(4) [OF c1, of i] Bi iB nD by (simp add: B_def)
  have v2b: "n = d \<Longrightarrow> to_datetime parse (snd (df ! i)) = Some (snd (df2 ! i))"
    using convert_date_Inr(5) [OF c1, of i] Bi iB by (simp add: B_def)
  have i2: "i < length df2" using i l2 by simp
  have Ei: "strip_lower df2 ! i = (if n = d then ''date'' else n, snd (df2 ! i))"
    using i2 f2 by (simp add: nth_strip_lower canon_lower n_def std_idem)
  have s_in: "contains ''sales'' s" "s \<in> set (columns (strip_lower df2))"
    using matching_head [OF ms] by simp_all
  have c_in: "contains ''category'' c" "c \<in> set (columns (strip_lower df2))"
    using matching_head [OF mc] by simp_all
  have d_in: "contains ''date'' d" using matching_head [OF m1] by simp
  have sD: "s \<noteq> ''Date''" "s \<noteq> ''date''"
    using s_in contains_canon by (auto simp: columns_strip_lower std_ne_canon)
  have cD: "c \<noteq> ''Date''" "c \<noteq> ''date''" "c \<noteq> ''Sales''"
    using c_in contains_canon by (auto simp: columns_strip_lower std_ne_canon)
  have Fi: "F ! i = (let e = (if n = d then ''date'' else n);
                        e1 = (if e = ''date'' then ''Date'' else e);
                        e2 = (if e1 = s then ''Sales'' else e1)
                     in if e2 = c then ''Category'' else e2, snd (df2 ! i))"
    using i2 Ei by (simp add: F_def nth_rename length_rename length_strip_lower Let_def)
  have iF: "i < length F" using i2 by (simp add: F_def length_rename length_strip_lower)
  have c2': "convert_date parse F = Inr df'" using c2 d' by (simp add: F_def)
  have f': "fst (df' ! i) = fst (F ! i)"
    using columns_eq_nth [OF convert_date_Inr(2) [OF c2'], of i] l' i
    by simp
  have FD: "fst (F ! i) = ''Date'' \<longleftrightarrow> (n = d \<or> n = ''date'')"
    using Fi sD cD nD by (auto simp: Let_def)
  show "fst (df' ! i) \<noteq> ''Date'' \<Longrightarrow> snd (df' ! i) = snd (df ! i)"
  proof -
    assume a: "fst (df' ! i) \<noteq> ''Date''"
    then have "n \<noteq> d" using f' FD by simp
    moreover have "snd (df' ! i) = snd (F ! i)"
      using convert_date_Inr(4) [OF c2', of i] iF a f' by simp
    ultimately show ?thesis using v2a Fi by simp
  qed
  show "fst (df' ! i) = ''Date'' \<Longrightarrow> to_datetime parse (snd (df ! i)) = Some (snd (df' ! i))"
  proof -
    assume a: "fst (df' ! i) = ''Date''"
    then have t: "to_datetime parse (snd (df2 ! i)) = Some (snd (df' ! i))"
      using convert_date_Inr(5) [OF c2', of i] iF f' Fi by simp
    show ?thesis
    proof (cases "n = d")
      case True
      then have "to_datetime parse (snd (df ! i)) = Some (snd (df2 ! i))" by (rule v2b)
      moreover from this have "to_datetime parse (snd (df2 ! i)) = Some (snd (df2 ! i))"
        by (rule to_datetime_twice)
      ultimately show ?thesis using t by simp
    next
      case False
      then show ?thesis using t v2a by simp
    qed
  qed
  show "fst (df' ! i) \<in> {lower (strip (fst (df ! i))), ''Date'', ''Sales'', ''Category''}"
    using f' Fi by (auto simp: Let_def n_def)
  show "fst (df' ! i) = lower (strip (fst (df ! i)))"
    if "\<not> contains ''date'' (lower (strip (fst (df ! i))))"
       "\<not> contains ''sales'' (lower (strip (fst (df ! i))))"
       "\<not> contains ''category'' (lower (strip (fst (df ! i))))"
  proof -
    have "n \<noteq> d" "n \<noteq> ''date''" "n \<noteq> s" "n \<noteq> c"
      using that d_in s_in c_in contains_canon by (auto simp: n_def)
    then show ?thesis using f' Fi by (simp add: Let_def n_def)
  qed
qed

lemma normalization_length:
  assumes "normalization parse df = Inr df'"
  shows "length df' = length df"
proof -
  from assms obtain d ds df2 d' ds' s ss c cs where
    c1: "convert_date parse (rename d ''Date'' (strip_lower df)) = Inr df2" and
    c2: "convert_date parse
       (rename c ''Category'' (rename s ''Sales'' (rename d' ''Date'' (strip_lower df2)))) = Inr df'"
    by (rule normalization_Inr)
  show ?thesis
    using convert_date_Inr(1) [OF c1] convert_date_Inr(1) [OF c2]
    by (simp add: length_rename length_strip_lower)
qed

text \<open>
  C10. When normalization yields a table, it has as many columns as the input, in the same
  positions. A column that is not labelled Date in the result holds the values it held in
  the input, in the same row order. The column labelled Date holds the input values of
  that column converted by \<open>to_datetime\<close>, one for each row. Each label of the result is the
  trimmed, lower-cased input label or one of Date, Sales, Category, and a column whose
  label contains none of the three keys is kept under its trimmed, lower-cased label.
\<close>

theorem normalization_frame:
  assumes "normalization parse df = Inr df'"
  shows "length df' = length df \<and>
         (\<forall>i<length df.
            length (snd (df' ! i)) = length (snd (df ! i)) \<and>
            (fst (df' ! i) \<noteq> ''Date'' \<longrightarrow> snd (df' ! i) = snd (df ! i)) \<and>
            (fst (df' ! i) = ''Date'' \<longrightarrow>
               to_datetime parse (snd (df ! i)) = Some (snd (df' ! i))) \<and>
            fst (df' ! i) \<in> {lower (strip (fst (df ! i))), ''Date'', ''Sales'', ''Category''} \<and>
            (\<not> contains ''date'' (lower (strip (fst (df ! i)))) \<and>
             \<not> contains ''sales'' (lower (strip (fst (df ! i)))) \<and>
             \<not> contains ''category'' (lower (strip (fst (df ! i)))) \<longrightarrow>
               fst (df' ! i) = lower (strip (fst (df ! i)))))"
proof (intro conjI allI impI)
  show "length df' = length df"
    using assms by (rule normalization_length)
next
  fix i assume i: "i < length df"
  note n = normalization_nth [OF assms i]
  show "length (snd (df' ! i)) = length (snd (df ! i))"
  proof (cases "fst (df' ! i) = ''Date''")
    case True
    then have "to_datetime parse (snd (df ! i)) = Some (snd (df' ! i))" by (rule n(3))
    then show ?thesis by (rule to_datetime_length)
  next
    case False
    then show ?thesis using n(2) by simp
  qed
  show "snd (df' ! i) = snd (df ! i)" if "fst (df' ! i) \<noteq> ''Date''"
    using that by (rule n(2))
  show "to_datetime parse (snd (df ! i)) = Some (snd (df' ! i))" if "fst (df' ! i) = ''Date''"
    using that by (rule n(3))
  show "fst (df' ! i) \<in> {lower (strip (fst (df ! i))), ''Date'', ''Sales'', ''Category''}"
    by (rule n(4))
  show "fst (df' ! i) = lower (strip (fst (df ! i)))"
    if "\<not> contains ''date'' (lower (strip (fst (df ! i)))) \<and>
        \<not> contains ''sales'' (lower (strip (fst (df ! i)))) \<and>
        \<not> contains ''category'' (lower (strip (fst (df ! i))))"
    using that n(5) by blast
qed

theorem normalization_frame_witness:
  "normalization iso_parser
     [('' Date '', [Txt ''2023-01-01'', Txt ''2023-01-02'']), (''Net_Sales'', [Num 3, Num 4]),
      (''Region'', [Txt ''North'', Txt ''South'']), (''Category'', [Txt ''Shoes'', Txt ''Hats''])] =
   Inr [(''Date'', [Stamp \<lparr>year = 2023, month = 1, day = 1, time_of_day = 0\<rparr>,
                    Stamp \<lparr>year = 2023, month = 1, day = 2, time_of_day = 0\<rparr>]),
        (''Sales'', [Num 3, Num 4]),
        (''region'', [Txt ''North'', Txt ''South'']),
        (''Category'', [Txt ''Shoes'', Txt ''Hats''])] \<and>
   length [(''Date'', [Stamp \<lparr>year = 2023, month = 1, day = 1, time_of_day = 0\<rparr>,
                    Stamp \<lparr>year = 2023, month = 1, day = 2, time_of_day = 0\<rparr>]),
        (''Sales'', [Num 3, Num 4]),
        (''region'', [Txt ''North'', Txt ''South'']),
        (''Category'', [Txt ''Shoes'', Txt ''Hats''])] =
   length [('' Date '', [Txt ''2023-01-01'', Txt ''2023-01-02'']), (''Net_Sales'', [Num 3, Num 4]),
      (''Region'', [Txt ''North'', Txt ''South'']), (''Category'', [Txt ''Shoes'', Txt ''Hats''])]"
  (is "?N = Inr ?T' \<and> length ?T' = length ?T")
proof -
  have h: "?N = Inr ?T'" by code_simp
  from normalization_frame [OF h] have "length ?T' = length ?T" by (rule conjunct1)
  with h show ?thesis by (rule conjI)
qed

section \<open>Category filter\<close>

lemma set_unique: "set (unique xs) = set xs"
  by (simp add: unique_def)

lemma filter_selected:
  "filter (\<lambda>r. Category r \<in> set (filter checkbox (unique (map Category df)))) df =
   filter (\<lambda>r. checkbox (Category r)) df"
  by (rule filter_cong) (auto simp: set_unique)

text \<open>
  C1. For every table and every list of selected labels, the filter returns the rows whose
  category is among the selected labels, as the sublist of the table that \<open>filter\<close> gives,
  so in the original relative order; with nothing selected it returns no row. With the
  selection that the checkboxes give, it returns the rows whose category is checked.
\<close>

theorem filtered_data_selects:
  "filtered_data df selected = filter (\<lambda>r. Category r \<in> set selected) df \<and>
   filtered_data df [] = [] \<and>
   filtered_data df (selected_categories checkbox df) = filter (\<lambda>r. checkbox (Category r)) df"
proof (intro conjI)
  show "filtered_data df selected = filter (\<lambda>r. Category r \<in> set selected) df"
    by (simp add: filtered_data_def)
  show "filtered_data df [] = []"
    by (simp add: filtered_data_def)
  have "filtered_data df (selected_categories checkbox df) =
        filter (\<lambda>r. Category r \<in> set (selected_categories checkbox df)) df"
    by (simp add: filtered_data_def)
  also have "\<dots> = filter (\<lambda>r. checkbox (Category r)) df"
  proof (cases "df = []")
    case True
    then show ?thesis by simp
  next
    case False
    then have "selected_categories checkbox df = filter checkbox (unique (map Category df))"
      by (simp add: selected_categories_def)
    then show ?thesis by (simp only: filter_selected)
  qed
  finally show "filtered_data df (selected_categories checkbox df) =
                filter (\<lambda>r. checkbox (Category r)) df" .
qed

theorem filtered_data_selects_witness:
  "filtered_data
     [\<lparr>Date = \<lparr>year = 2023, month = 1, day = 1, time_of_day = 0\<rparr>, Category = ''Dresses'', Sales = 10\<rparr>,
      \<lparr>Date = \<lparr>year = 2023, month = 1, day = 2, time_of_day = 0\<rparr>, Category = ''Dresses'', Sales = 20\<rparr>,
      \<lparr>Date = \<lparr>year = 2023, month = 1, day = 1, time_of_day = 0\<rparr>, Category = ''Shoes'', Sales = 5\<rparr>]
     [''Shoes''] =
   [\<lparr>Date = \<lparr>year = 2023, month = 1, day = 1, time_of_day = 0\<rparr>, Category = ''Shoes'', Sales = 5\<rparr>]"
  (is "filtered_data ?df ?sel = ?res")
proof -
  have "filter (\<lambda>r. Category r \<in> set ?sel) ?df = ?res" by simp
  with filtered_data_selects [of ?df ?sel "\<lambda>c. True", THEN conjunct1] show ?thesis
    by (rule trans)
qed

section \<open>Metrics\<close>

lemma digits_0: "digits 0 = ''0''"
  by code_simp

lemma fold_max_Max: "fold max xs (v::int) = Max (set (v # xs))"
  using Max.set_eq_fold [of v xs] by simp

lemma idxmax_first_max:
  assumes "series \<noteq> []"
  shows "\<exists>i<length series. idxmax series = Some (fst (series ! i)) \<and>
           (\<forall>j<length series. snd (series ! j) \<le> snd (series ! i)) \<and>
           (\<forall>j<i. snd (series ! j) < snd (series ! i))"
proof -
  from assms obtain k v rest where s: "series = (k, v) # rest" by (cases series) auto
  define m where "m = fold max (map snd rest) v"
  have m: "m = Max (set (map snd series))" by (simp add: m_def s fold_max_Max)
  have "m \<in> set (map snd series)" unfolding m using assms by (intro Max_in) auto
  then obtain x where x: "x \<in> set series" "snd x = m" by auto
  then have "x \<in> set series \<and> (\<lambda>(k, v). v = m) x"
    by (simp add: case_prod_beta)
  then have "\<exists>x. x \<in> set series \<and> (\<lambda>(k, v). v = m) x" ..
  then have "find (\<lambda>(k, v). v = m) series \<noteq> None"
    unfolding find_None_iff by blast
  then obtain y where y: "find (\<lambda>(k, v). v = m) series = Some y" by auto
  then obtain i where i: "i < length series" "snd (series ! i) = m" "y = series ! i"
    "\<forall>j<i. snd (series ! j) \<noteq> m"
    by (auto simp: find_Some_iff case_prod_beta)
  have le: "\<And>j. j < length series \<Longrightarrow> snd (series ! j) \<le> m"
    unfolding m by (intro Max_ge) auto
  have "idxmax series = Some (fst (series ! i))"
    using y i by (simp add: idxmax_def s m_def [symmetric])
  moreover have "\<forall>j<length series. snd (series ! j) \<le> snd (series ! i)"
    using le i by simp
  moreover have "\<forall>j<i. snd (series ! j) < snd (series ! i)"
  proof (intro allI impI)
    fix j assume "j < i"
    then have "snd (series ! j) \<le> m" "snd (series ! j) \<noteq> m" using le i by auto
    then show "snd (series ! j) < snd (series ! i)" using i by simp
  qed
  ultimately show ?thesis using i(1) by blast
qed

lemma highest_sales_day_row:
  "highest_sales_day [] = Some ''N/A'' \<and>
   (df \<noteq> [] \<longrightarrow>
      (\<exists>i<length df.
         highest_sales_day df = Some (strftime (Date (df ! i))) \<and>
         (\<forall>j<length df. Sales (df ! j) \<le> Sales (df ! i)) \<and>
         (\<forall>j<i. Sales (df ! j) < Sales (df ! i))))"
proof (intro conjI impI)
  show "highest_sales_day [] = Some ''N/A''" by (simp add: highest_sales_day_def)
next
  assume ne: "df \<noteq> []"
  define series where "series = zip [0..<length df] (map Sales df)"
  have l: "length series = length df" by (simp add: series_def)
  have nth: "\<And>j. j < length df \<Longrightarrow> series ! j = (j, Sales (df ! j))"
    by (simp add: series_def)
  have "series \<noteq> []" using ne l by auto
  from idxmax_first_max [OF this] obtain i where i: "i < length series"
    "idxmax series = Some (fst (series ! i))"
    "\<forall>j<length series. snd (series ! j) \<le> snd (series ! i)"
    "\<forall>j<i. snd (series ! j) < snd (series ! i)" by blast
  have il: "i < length df" using i(1) l by simp
  have "idxmax series = Some i" using i(2) nth [OF il] by simp
  then have "highest_sales_day df = Some (strftime (Date (df ! i)))"
    using ne il by (simp add: highest_sales_day_def series_def [symmetric] loc_def)
  moreover have "\<forall>j<length df. Sales (df ! j) \<le> Sales (df ! i)"
    using i(3) l nth il by simp
  moreover have "\<forall>j<i. Sales (df ! j) < Sales (df ! i)"
  proof (intro allI impI)
    fix j assume j: "j < i"
    then have "snd (series ! j) < snd (series ! i)" using i(4) by simp
    then show "Sales (df ! j) < Sales (df ! i)" using nth [of j] nth [OF il] j il by simp
  qed
  ultimately show "\<exists>i<length df.
         highest_sales_day df = Some (strftime (Date (df ! i))) \<and>
         (\<forall>j<length df. Sales (df ! j) \<le> Sales (df ! i)) \<and>
         (\<forall>j<i. Sales (df ! j) < Sales (df ! i))"
    using il by blast
qed

lemma digit_char_of: "k < 10 \<Longrightarrow> digit (char_of (48 + k)) = Some k"
proof -
  assume k: "k < 10"
  have "(of_char (char_of (48 + k) :: char) :: nat) = 48 + k" using k by simp
  then show ?thesis
    using k by (simp add: digit_def less_eq_char_def)
qed

lemma digit_zero: "digit CHR ''0'' = Some 0"
  by code_simp

lemma number_snoc:
  "xs \<noteq> [] \<Longrightarrow> number (xs @ [c]) =
     (case (number xs, digit c) of (Some a, Some d) \<Rightarrow> Some (a * 10 + d) | _ \<Rightarrow> None)"
proof (induction xs rule: number.induct)
  case 1
  then show ?case by simp
next
  case (2 x)
  then show ?case by (simp split: option.splits)
next
  case (3 x y ys)
  then show ?case
    by (simp split: option.splits add: algebra_simps)
qed

lemma digits_nonempty: "digits n \<noteq> []"
  by (subst digits.simps) simp

lemma number_digits: "number (digits n) = Some n"
proof (induction n rule: digits.induct)
  case (1 n)
  show ?case
  proof (cases "n < 10")
    case True
    then show ?thesis by (subst digits.simps) (simp add: digit_char_of)
  next
    case False
    then have "number (digits (n div 10)) = Some (n div 10)" using 1 by simp
    moreover have "digit (char_of (48 + n mod 10)) = Some (n mod 10)"
      by (rule digit_char_of) simp
    ultimately show ?thesis
      using False by (subst digits.simps) (simp add: number_snoc digits_nonempty)
  qed
qed

lemma number_zeros: "ys \<noteq> [] \<Longrightarrow> number (replicate k (CHR ''0'') @ ys) = number ys"
proof (induction k)
  case 0
  then show ?case by simp
next
  case (Suc k)
  then obtain z zs where "replicate k (CHR ''0'') @ ys = z # zs"
    by (cases "replicate k (CHR ''0'') @ ys") auto
  then show ?case using Suc by (simp add: digit_zero split: option.splits)
qed

lemma number_zero_pad: "number (zero_pad w n) = Some n"
  by (simp add: zero_pad_def number_zeros digits_nonempty number_digits)

lemma length_digits: "n < 10 ^ k \<Longrightarrow> 0 < k \<Longrightarrow> length (digits n) \<le> k"
proof (induction n arbitrary: k rule: digits.induct)
  case (1 n)
  show ?case
  proof (cases "n < 10")
    case True
    then show ?thesis using 1(3) by (subst digits.simps) simp
  next
    case False
    have "k \<noteq> Suc 0" using False 1(2) by auto
    then obtain k' where k: "k = Suc k'" "0 < k'" using 1(3)
      by (cases k) auto
    then have "n div 10 < 10 ^ k'" using 1(2) by (simp add: less_mult_imp_div_less mult.commute)
    then have "length (digits (n div 10)) \<le> k'" using 1(1) False k by simp
    then show ?thesis using False k by (subst digits.simps) simp
  qed
qed

lemma length_zero_pad: "n < 10 ^ w \<Longrightarrow> 0 < w \<Longrightarrow> length (zero_pad w n) = w"
  using length_digits [of n w] by (simp add: zero_pad_def)

lemma strftime_iso:
  assumes "year t < 10000" "1 \<le> month t" "month t \<le> 12" "1 \<le> day t" "day t \<le> 31"
  shows "iso_date (Txt (strftime t)) =
         Some \<lparr>year = year t, month = month t, day = day t, time_of_day = 0\<rparr>"
proof -
  define Y where "Y = zero_pad 4 (year t)"
  define M where "M = zero_pad 2 (month t)"
  define D where "D = zero_pad 2 (day t)"
  have ly: "length Y = 4" unfolding Y_def using assms by (intro length_zero_pad) simp_all
  have lm: "length M = 2" unfolding M_def using assms by (intro length_zero_pad) simp_all
  have ld: "length D = 2" unfolding D_def using assms by (intro length_zero_pad) simp_all
  have s: "strftime t = Y @ CHR ''-'' # M @ CHR ''-'' # D"
    by (simp add: strftime_def Y_def M_def D_def)
  have "length (strftime t) = 10" using ly lm ld s by simp
  moreover have "strftime t ! 4 = CHR ''-''" using ly s by (simp add: nth_append)
  moreover have "strftime t ! 7 = CHR ''-''" using ly lm s by (simp add: nth_append nth_Cons')
  moreover have "take 4 (strftime t) = Y" using ly s by simp
  moreover have "take 2 (drop 5 (strftime t)) = M" using ly lm s by simp
  moreover have "drop 8 (strftime t) = D" using ly lm s by simp
  moreover have "number Y = Some (year t)" "number M = Some (month t)" "number D = Some (day t)"
    by (simp_all add: Y_def M_def D_def number_zero_pad)
  ultimately show ?thesis using assms by (simp add: iso_date_def)
qed

text \<open>
  C5. On the empty table the Highest Sales Day metric is the text N/A. On a non-empty
  table it is the \<open>strftime\<close> text of the Date of a row whose Sales value is the largest of
  the table, and every row before that row has a smaller Sales value, so it is the first
  such row. That text is the calendar date in the form YYYY-MM-DD: for a year below 10000,
  a month from 1 to 12 and a day from 1 to 31, reading it as year, month and day between
  hyphens gives back the date.
\<close>

theorem highest_sales_day_first_max:
  "highest_sales_day [] = Some ''N/A'' \<and>
   (df \<noteq> [] \<longrightarrow>
      (\<exists>i<length df.
         highest_sales_day df = Some (strftime (Date (df ! i))) \<and>
         (\<forall>j<length df. Sales (df ! j) \<le> Sales (df ! i)) \<and>
         (\<forall>j<i. Sales (df ! j) < Sales (df ! i)) \<and>
         (year (Date (df ! i)) < 10000 \<and> 1 \<le> month (Date (df ! i)) \<and>
          month (Date (df ! i)) \<le> 12 \<and> 1 \<le> day (Date (df ! i)) \<and> day (Date (df ! i)) \<le> 31 \<longrightarrow>
            iso_date (Txt (strftime (Date (df ! i)))) =
              Some ((Date (df ! i))\<lparr>time_of_day := 0\<rparr>))))"
proof (intro conjI impI)
  show "highest_sales_day [] = Some ''N/A''"
    using highest_sales_day_row by (rule conjunct1)
next
  assume "df \<noteq> []"
  with highest_sales_day_row [of df] obtain i where i: "i < length df"
    "highest_sales_day df = Some (strftime (Date (df ! i)))"
    "\<forall>j<length df. Sales (df ! j) \<le> Sales (df ! i)"
    "\<forall>j<i. Sales (df ! j) < Sales (df ! i)"
    by blast
  have "iso_date (Txt (strftime (Date (df ! i)))) = Some ((Date (df ! i))\<lparr>time_of_day := 0\<rparr>)"
    if "year (Date (df ! i)) < 10000 \<and> 1 \<le> month (Date (df ! i)) \<and>
        month (Date (df ! i)) \<le> 12 \<and> 1 \<le> day (Date (df ! i)) \<and> day (Date (df ! i)) \<le> 31"
    using that strftime_iso [of "Date (df ! i)"] by simp
  with i show "\<exists>i<length df.
         highest_sales_day df = Some (strftime (Date (df ! i))) \<and>
         (\<forall>j<length df. Sales (df ! j) \<le> Sales (df ! i)) \<and>
         (\<forall>j<i. Sales (df ! j) < Sales (df ! i)) \<and>
         (year (Date (df ! i)) < 10000 \<and> 1 \<le> month (Date (df ! i)) \<and>
          month (Date (df ! i)) \<le> 12 \<and> 1 \<le> day (Date (df ! i)) \<and> day (Date (df ! i)) \<le> 31 \<longrightarrow>
            iso_date (Txt (strftime (Date (df ! i)))) =
              Some ((Date (df ! i))\<lparr>time_of_day := 0\<rparr>))"
    by blast
qed

theorem highest_sales_day_first_max_witness:
  "highest_sales_day
     [\<lparr>Date = \<lparr>year = 2023, month = 1, day = 1, time_of_day = 0\<rparr>, Category = ''Dresses'', Sales = 10\<rparr>,
      \<lparr>Date = \<lparr>year = 2023, month = 1, day = 2, time_of_day = 0\<rparr>, Category = ''Dresses'', Sales = 20\<rparr>,
      \<lparr>Date = \<lparr>year = 2023, month = 1, day = 3, time_of_day = 0\<rparr>, Category = ''Shoes'', Sales = 20\<rparr>] =
   Some ''2023-01-02''"
  (is "highest_sales_day ?df = _")
proof -
  have ne: "?df \<noteq> []" by simp
  from highest_sales_day_first_max [of ?df, THEN conjunct2, rule_format, OF ne]
  obtain i where i: "i < length ?df"
    "highest_sales_day ?df = Some (strftime (Date (?df ! i)))"
    "\<forall>j<length ?df. Sales (?df ! j) \<le> Sales (?df ! i)"
    "\<forall>j<i. Sales (?df ! j) < Sales (?df ! i)"
    by blast
  from i(1) have "i = 0 \<or> i = 1 \<or> i = 2" by auto
  moreover have "i \<noteq> 0"
  proof
    assume "i = 0"
    with i(3) [rule_format, of 1] show False by simp
  qed
  moreover have "i \<noteq> 2"
  proof
    assume "i = 2"
    with i(4) [rule_format, of 1] show False by simp
  qed
  ultimately have "i = 1" by simp
  moreover have "strftime (Date (?df ! 1)) = ''2023-01-02''" by code_simp
  ultimately show ?thesis using i(2) by simp
qed

section \<open>Forecast and data table\<close>

text \<open>
  C8. The forecasting step is skipped exactly when the filtered table is empty. On the empty
  table the run shows the error message, calls no model, shows no forecast chart, and goes
  on to show the data table. On a non-empty table the model is called on the series of
  (Date, Sales) pairs of the rows with the chosen period, and no error message is shown.
\<close>

theorem forecast_skipped_iff_empty:
  "(filtered = [] \<longleftrightarrow>
      StError ''No data available for forecasting.''
        \<in> set (fst (forecast_and_table prophet filtered period))) \<and>
   (filtered = [] \<longleftrightarrow>
      Fit (map (\<lambda>r. (Date r, Sales r)) filtered) period
        \<notin> set (fst (forecast_and_table prophet filtered period))) \<and>
   (filtered = [] \<longrightarrow>
      forecast_and_table prophet filtered period =
        ([StError ''No data available for forecasting.'', StDataframe filtered], Completed)) \<and>
   (filtered \<noteq> [] \<longrightarrow>
      hd (fst (forecast_and_table prophet filtered period)) =
        Fit (map (\<lambda>r. (Date r, Sales r)) filtered) period)"
  by (cases "prophet (map (\<lambda>r. (Date r, Sales r)) filtered) period")
     (auto simp: forecast_and_table_def forecast_def)

theorem forecast_skipped_iff_empty_witness:
  "forecast_and_table (\<lambda>series period. None :: nat option) ([] :: unit table) 30 =
     ([StError ''No data available for forecasting.'', StDataframe []], Completed)"
  using forecast_skipped_iff_empty [of "[] :: unit table" "\<lambda>series period. None :: nat option" 30]
  by blast

section \<open>Input acquisition\<close>

text \<open>
  C9. A run with the database toggle on and the Connect button not pressed does not end
  with the prompt: it goes on with no table and line 83 raises AttributeError. This holds
  with and without an uploaded file.
\<close>

theorem use_db_without_connect:
  "load_and_normalize iso_parser (\<lambda>rows :: unit list. [])
     \<lparr>uploaded_file = None, use_db = True, connect = False, fetched = Inr []\<rparr> = AttributeError \<and>
   load_and_normalize iso_parser (\<lambda>rows :: unit list. [])
     \<lparr>uploaded_file = Some [(''Date'', []), (''Category'', []), (''Sales'', [])],
      use_db = True, connect = False, fetched = Inr []\<rparr> = AttributeError"
  by (simp add: load_and_normalize_def load_data_def)

lemma no_source_prompt:
  "\<not> use_db w \<Longrightarrow> uploaded_file w = None \<Longrightarrow>
   load_and_normalize parse DataFrame w = Stopped PleaseUpload"
  by (simp add: load_and_normalize_def load_data_def)

lemma connection_failed_stops:
  "use_db w \<Longrightarrow> connect w \<Longrightarrow> fetched w = Inl e \<Longrightarrow>
   load_and_normalize parse DataFrame w = Stopped (ConnectionFailed e)"
  by (simp add: load_and_normalize_def load_data_def)

section \<open>First matches and renaming\<close>

lemma first_match_props:
  assumes "first_match key L < length L"
  shows "contains key (L ! first_match key L)"
    and "\<And>m. m < first_match key L \<Longrightarrow> \<not> contains key (L ! m)"
proof -
  show "contains key (L ! first_match key L)"
    using assms nth_length_takeWhile [of "\<lambda>n. \<not> contains key n" L]
    by (simp add: first_match_def)
  fix m assume m: "m < first_match key L"
  then have "takeWhile (\<lambda>n. \<not> contains key n) L ! m \<in> set (takeWhile (\<lambda>n. \<not> contains key n) L)"
    by (simp add: first_match_def)
  then have "\<not> contains key (takeWhile (\<lambda>n. \<not> contains key n) L ! m)"
    by (blast dest: set_takeWhileD)
  then show "\<not> contains key (L ! m)"
    using m by (simp add: first_match_def takeWhile_nth)
qed

lemma first_match_eqI:
  assumes "j < length L" "contains key (L ! j)" "\<And>m. m < j \<Longrightarrow> \<not> contains key (L ! m)"
  shows "first_match key L = j"
proof -
  have "takeWhile (\<lambda>n. \<not> contains key n) L = take j L"
    by (rule takeWhile_eq_take_P_nth) (use assms in auto)
  then show ?thesis using assms(1) by (simp add: first_match_def)
qed

lemma filter_first_match:
  assumes "first_match key L < length L"
  shows "\<exists>rest. filter (contains key) L = L ! first_match key L # rest"
proof -
  define P where "P = (\<lambda>n. \<not> contains key n)"
  have l: "length (takeWhile P L) < length L" using assms by (simp add: first_match_def P_def)
  then have "dropWhile P L \<noteq> []" by (metis length_append less_irrefl_nat list.size(3) add.right_neutral takeWhile_dropWhile_id)
  then obtain x xs where d: "dropWhile P L = x # xs" by (cases "dropWhile P L") auto
  have x: "x = L ! length (takeWhile P L)"
    using d l by (metis dropWhile_eq_drop hd_drop_conv_nth list.sel(1))
  have nx: "\<not> P x" using d by (metis hd_dropWhile list.distinct(1) list.sel(1))
  have "filter (contains key) (takeWhile P L) = []"
    by (auto simp: filter_empty_conv P_def dest: set_takeWhileD)
  moreover have "filter (contains key) L =
      filter (contains key) (takeWhile P L) @ filter (contains key) (dropWhile P L)"
    by (metis filter_append takeWhile_dropWhile_id)
  ultimately have "filter (contains key) L = x # filter (contains key) xs"
    using d nx by (simp add: P_def)
  then show ?thesis using x by (simp add: first_match_def P_def)
qed

lemma filter_Nil_first_match:
  "filter (contains key) L = [] \<longleftrightarrow> first_match key L = length L"
proof
  assume "filter (contains key) L = []"
  then have "\<forall>x\<in>set L. \<not> contains key x" by (simp add: filter_empty_conv)
  then have tw: "takeWhile (\<lambda>n. \<not> contains key n) L = L" by simp
  show "first_match key L = length L"
    unfolding first_match_def tw by (rule refl)
next
  assume a: "first_match key L = length L"
  then have "takeWhile (\<lambda>n. \<not> contains key n) L = L"
    unfolding first_match_def by (metis takeWhile_eq_take take_all order_refl)
  then show "filter (contains key) L = []"
    by (metis (mono_tags, lifting) filter_False set_takeWhileD)
qed

lemma first_match_le: "first_match key L \<le> length L"
  by (simp add: first_match_def length_takeWhile_le)

lemma count_one_unique:
  "count_list L x = 1 \<Longrightarrow> j < length L \<Longrightarrow> L ! j = x \<Longrightarrow> m < length L \<Longrightarrow> L ! m = x \<Longrightarrow> m = j"
proof (induction L arbitrary: j m)
  case Nil
  then show ?case by simp
next
  case (Cons a L)
  show ?case
  proof (cases "a = x")
    case True
    then have "count_list L x = 0" using Cons.prems(1) by simp
    then have nx: "x \<notin> set L" by (simp add: count_list_0_iff)
    have "j = 0" using nx Cons.prems(2,3) by (cases j) auto
    moreover have "m = 0" using nx Cons.prems(4,5) by (cases m) auto
    ultimately show ?thesis by simp
  next
    case False
    then have c: "count_list L x = 1" using Cons.prems(1) by simp
    from False Cons.prems obtain j' m' where "j = Suc j'" "m = Suc m'"
      by (cases j; cases m) auto
    then show ?thesis using Cons.IH [OF c, of j' m'] Cons.prems by simp
  qed
qed

lemma unique_count_one:
  assumes "j < length L" "L ! j = x" "\<And>m. m < length L \<Longrightarrow> L ! m = x \<Longrightarrow> m = j"
  shows "count_list L x = 1"
  using assms
proof (induction L arbitrary: j)
  case Nil
  then show ?case by simp
next
  case (Cons a L)
  show ?case
  proof (cases j)
    case 0
    then have ax: "a = x" using Cons.prems(2) by simp
    have "x \<notin> set L"
    proof
      assume "x \<in> set L"
      then obtain m where "m < length L" "L ! m = x" by (auto simp: in_set_conv_nth)
      then have "Suc m = j" using Cons.prems(3) [of "Suc m"] by simp
      then show False using 0 by simp
    qed
    then show ?thesis using ax by (simp add: count_list_0_iff)
  next
    case (Suc j')
    have "a \<noteq> x" using Cons.prems(3) [of 0] Suc by auto
    moreover have "count_list L x = 1"
    proof (rule Cons.IH [of j'])
      show "j' < length L" using Cons.prems(1) Suc by simp
      show "L ! j' = x" using Cons.prems(2) Suc by simp
      fix m assume "m < length L" "L ! m = x"
      then have "Suc m = j" using Cons.prems(3) [of "Suc m"] by simp
      then show "m = j'" using Suc by simp
    qed
    ultimately show ?thesis by simp
  qed
qed

lemma ren_unique:
  assumes "count_list L x = 1" "j < length L" "L ! j = x"
  shows "map (\<lambda>n. if n = x then y else n) L = L[j := y]"
proof (rule nth_equalityI)
  show "length (map (\<lambda>n. if n = x then y else n) L) = length (L[j := y])" by simp
  fix m assume "m < length (map (\<lambda>n. if n = x then y else n) L)"
  then have m: "m < length L" by simp
  show "map (\<lambda>n. if n = x then y else n) L ! m = L[j := y] ! m"
  proof (cases "m = j")
    case True
    then show ?thesis using assms by simp
  next
    case False
    then have "L ! m \<noteq> x" using count_one_unique [OF assms m] by blast
    then show ?thesis using False m by simp
  qed
qed

lemma ren_absent: "x \<notin> set L \<Longrightarrow> map (\<lambda>n. if n = x then y else n) L = L"
  by (induction L) auto

section \<open>Conversion of a date column that is ready\<close>

lemma frame_eqI:
  assumes "columns a = columns b" "map snd a = map snd b"
  shows "a = b"
proof -
  have "zip (map fst a) (map snd a) = zip (map fst b) (map snd b)"
    using assms by (simp add: columns_def)
  then show ?thesis by (simp add: zip_map_fst_snd)
qed

lemma filter_date_single:
  assumes "count_list (columns df) ''Date'' = 1"
  shows "\<exists>j v. j < length df \<and> df ! j = (''Date'', v) \<and>
               filter (\<lambda>(n, v). n = ''Date'') df = [(''Date'', v)]"
proof -
  have e: "(\<lambda>(n, v). n = ''Date'') = (\<lambda>x :: column. fst x = ''Date'')" by auto
  have f: "filter ((=) ''Date'') (map fst df) = map fst (filter (\<lambda>x. fst x = ''Date'') df)"
    by (induction df) auto
  have "length (filter (\<lambda>x :: column. fst x = ''Date'') df) = 1"
    using assms f by (simp add: columns_def count_list_eq_length_filter del: length_filter_map)
  then obtain y where y: "filter (\<lambda>x :: column. fst x = ''Date'') df = [y]"
    by (cases "filter (\<lambda>x :: column. fst x = ''Date'') df") auto
  then have "y \<in> set (filter (\<lambda>x :: column. fst x = ''Date'') df)" by simp
  then have yy: "y \<in> set df" "fst y = ''Date''" by auto
  then obtain j where "j < length df" "df ! j = y" by (auto simp: in_set_conv_nth)
  then show ?thesis using y yy e by (cases y) auto
qed

lemma convert_date_cases:
  assumes "count_list (columns df) ''Date'' = 1"
  shows "convert_date parse df = Inl DateParseError \<or> (\<exists>df'. convert_date parse df = Inr df')"
proof -
  from filter_date_single [OF assms] obtain v where
    "filter (\<lambda>(n, v). n = ''Date'') df = [(''Date'', v)]" by blast
  then show ?thesis
    by (cases "to_datetime parse v") (simp_all add: convert_date_def)
qed

lemma convert_date_ready:
  assumes "count_list (columns df) ''Date'' = 1"
    and "\<And>j. j < length df \<Longrightarrow> fst (df ! j) = ''Date'' \<Longrightarrow> \<forall>c\<in>set (snd (df ! j)). \<exists>t. c = Stamp t"
  shows "convert_date parse df = Inr df"
proof -
  from filter_date_single [OF assms(1)] obtain j v where j: "j < length df"
    "df ! j = (''Date'', v)" "filter (\<lambda>(n, v). n = ''Date'') df = [(''Date'', v)]" by blast
  have "\<forall>c\<in>set v. \<exists>t. c = Stamp t" using assms(2) [OF j(1)] j(2) by simp
  then have t: "to_datetime parse v = Some v" by (rule to_datetime_fixed)
  have "map (\<lambda>(m, w). (m, if m = ''Date'' then v else w)) df = df"
  proof (rule map_idI)
    fix x assume x: "x \<in> set df"
    show "(case x of (m, w) \<Rightarrow> (m, if m = ''Date'' then v else w)) = x"
    proof (cases "fst x = ''Date''")
      case True
      then have "x \<in> set (filter (\<lambda>(n, v). n = ''Date'') df)" using x by (auto simp: case_prod_beta)
      then have "x = (''Date'', v)" unfolding j(3) by simp
      then show ?thesis by simp
    next
      case False
      then show ?thesis by (cases x) auto
    qed
  qed
  then show ?thesis using j(3) t by (simp add: convert_date_def)
qed

lemma convert_date_Inr_stamps:
  assumes "convert_date parse df = Inr df'" "j < length df'" "fst (df' ! j) = ''Date''"
  shows "\<forall>c\<in>set (snd (df' ! j)). \<exists>t. c = Stamp t"
proof -
  have l: "length df' = length df" using convert_date_Inr(1) [OF assms(1)] .
  have "fst (df ! j) = ''Date''"
    using columns_eq_nth [OF convert_date_Inr(2) [OF assms(1)], of j] assms(2,3) by simp
  then have "to_datetime parse (snd (df ! j)) = Some (snd (df' ! j))"
    using convert_date_Inr(5) [OF assms(1), of j] assms(2) l by simp
  then show ?thesis by (rule to_datetime_stamps)
qed

section \<open>The two passes on the column labels\<close>

lemma length_std_names: "length (std_names df) = length df"
  by (simp add: std_names_def length_columns length_strip_lower)

lemma std_names_map: "std_names df = map (\<lambda>n. lower (strip n)) (columns df)"
  by (simp add: std_names_def columns_strip_lower)

lemma std_names_std:
  assumes "n \<in> set (std_names df)"
  shows "lower (strip n) = n" "n \<noteq> ''Date''" "n \<noteq> ''Sales''" "n \<noteq> ''Category''"
  using assms by (auto simp: std_names_map std_idem std_ne_canon)

lemma map_std_names: "map (\<lambda>n. lower (strip n)) (std_names df) = std_names df"
  by (rule map_idI) (rule std_names_std(1))

lemma values_eq_nth:
  assumes "map snd a = map snd b" "m < length a"
  shows "snd (a ! m) = snd (b ! m)"
proof -
  have "length a = length b" using assms(1) by (metis length_map)
  then have "map snd a ! m = snd (a ! m)" "map snd b ! m = snd (b ! m)"
    using assms(2) by simp_all
  then show ?thesis using assms(1) by simp
qed

lemma columns_nth: "m < length df \<Longrightarrow> columns df ! m = fst (df ! m)"
  by (simp add: columns_def)

lemma identify_date_match:
  assumes "matching ''date'' (strip_lower df) = d # ds"
  shows "identify_date parse df = convert_date parse (rename d ''Date'' (strip_lower df))"
  using assms by (simp add: identify_date_def)

lemma identify_columns_match:
  assumes "matching ''date'' (strip_lower df2) = d' # ds'"
    and "matching ''sales'' (strip_lower df2) = s # ss"
    and "matching ''category'' (strip_lower df2) = c # cs"
  shows "identify_columns parse df2 =
         convert_date parse
           (rename c ''Category'' (rename s ''Sales'' (rename d' ''Date'' (strip_lower df2))))"
  using assms by (simp add: identify_columns_def column_map_def canon_capitalize)

lemma matching_first:
  assumes "first_match key (columns df) < length df"
  shows "\<exists>rest. matching key df = columns df ! first_match key (columns df) # rest"
  unfolding matching_def using assms by (intro filter_first_match) (simp add: length_columns)

text \<open>
  C2 (amended). Let the trimmed, lower-cased labels of the input be given, and let the
  first label containing date, the first containing sales and the first containing
  category stand at three different positions, each of these three labels occurring once,
  and let no other column be labelled date. Then normalization ends with the error of a
  date value that does not convert exactly when the values of the first date column do not
  convert, and otherwise yields a table whose labels are the trimmed, lower-cased labels
  with exactly these three positions relabelled Date, Sales and Category. There is no
  outcome that warns of several matching columns.
\<close>

theorem first_matches_renamed:
  assumes i: "i = first_match ''date'' (std_names df)"
    and j: "j = first_match ''sales'' (std_names df)"
    and k: "k = first_match ''category'' (std_names df)"
    and lt: "i < length df" "j < length df" "k < length df"
    and ne: "i \<noteq> j" "i \<noteq> k" "j \<noteq> k"
    and ci: "count_list (std_names df) (std_names df ! i) = 1"
    and cj: "count_list (std_names df) (std_names df ! j) = 1"
    and ck: "count_list (std_names df) (std_names df ! k) = 1"
    and dt: "''date'' \<in> set (std_names df) \<Longrightarrow> std_names df ! i = ''date''"
  shows "(to_datetime parse (snd (df ! i)) = None \<longrightarrow>
            normalization parse df = Inl DateParseError) \<and>
         (to_datetime parse (snd (df ! i)) \<noteq> None \<longrightarrow>
            (\<exists>df'. normalization parse df = Inr df' \<and>
                   columns df' = (std_names df)[i := ''Date'', j := ''Sales'', k := ''Category'']))"
proof -
  define C where "C = std_names df"
  define S where "S = strip_lower df"
  have CS: "columns S = C" by (simp add: C_def S_def std_names_def)
  have lC: "length C = length df" by (simp add: C_def length_std_names)
  have mem: "\<And>m. m < length df \<Longrightarrow> C ! m \<in> set (std_names df)"
    using lC by (simp add: C_def)
  have nD: "\<And>m. m < length df \<Longrightarrow> C ! m \<noteq> ''Date''"
    and nS: "\<And>m. m < length df \<Longrightarrow> C ! m \<noteq> ''Sales''"
    and nC: "\<And>m. m < length df \<Longrightarrow> C ! m \<noteq> ''Category''"
    using mem std_names_std by blast+
  have pi: "contains ''date'' (C ! i)" "\<And>m. m < i \<Longrightarrow> \<not> contains ''date'' (C ! m)"
    using first_match_props [of "''date''" C] i lt lC by (simp_all add: C_def)
  have pj: "contains ''sales'' (C ! j)" "\<And>m. m < j \<Longrightarrow> \<not> contains ''sales'' (C ! m)"
    using first_match_props [of "''sales''" C] j lt lC by (simp_all add: C_def)
  have pk: "contains ''category'' (C ! k)" "\<And>m. m < k \<Longrightarrow> \<not> contains ''category'' (C ! m)"
    using first_match_props [of "''category''" C] k lt lC by (simp_all add: C_def)
  have ui: "\<And>m. m < length df \<Longrightarrow> C ! m = C ! i \<Longrightarrow> m = i"
    using count_one_unique [OF ci [folded C_def], of i] lt lC by simp
  have uj: "\<And>m. m < length df \<Longrightarrow> C ! m = C ! j \<Longrightarrow> m = j"
    using count_one_unique [OF cj [folded C_def], of j] lt lC by simp
  have uk: "\<And>m. m < length df \<Longrightarrow> C ! m = C ! k \<Longrightarrow> m = k"
    using count_one_unique [OF ck [folded C_def], of k] lt lC by simp
  have udate: "\<And>m. m < length df \<Longrightarrow> C ! m = ''date'' \<Longrightarrow> m = i"
  proof -
    fix m assume m: "m < length df" "C ! m = ''date''"
    then have "''date'' \<in> set (std_names df)" using mem [OF m(1)] by simp
    then have "C ! i = ''date''" using dt by (simp add: C_def)
    then show "m = i" using ui m by simp
  qed
  \<comment> \<open>first pass\<close>
  obtain ds where m1: "matching ''date'' S = C ! i # ds"
    using matching_first [of "''date''" S] i lt CS by (auto simp: C_def S_def length_strip_lower)
  define B where "B = rename (C ! i) ''Date'' S"
  have cB: "columns B = C[i := ''Date'']"
    unfolding B_def columns_rename CS
    by (rule ren_unique) (use ci lt lC in \<open>simp_all add: C_def\<close>)
  have lB: "length B = length df" by (simp add: B_def S_def length_rename length_strip_lower)
  have oneB: "count_list (columns B) ''Date'' = 1"
  proof (rule unique_count_one [of i])
    show "i < length (columns B)" using lt lB by (simp add: length_columns)
    show "columns B ! i = ''Date''" using cB lt lC by simp
    fix m assume "m < length (columns B)" "columns B ! m = ''Date''"
    then show "m = i" using cB nD [of m] lB lC by (cases "m = i") (simp_all add: length_columns)
  qed
  have id: "identify_date parse df = convert_date parse B"
    using identify_date_match [OF m1 [unfolded S_def]] by (simp add: B_def S_def)
  from filter_date_single [OF oneB] obtain j0 v where j0: "j0 < length B"
    "B ! j0 = (''Date'', v)" "filter (\<lambda>(n, v). n = ''Date'') B = [(''Date'', v)]" by blast
  have "columns B ! j0 = ''Date''" using j0(1,2) by (simp add: columns_def)
  then have j0i: "j0 = i" using cB nD [of j0] lB lC j0(1) by (cases "j0 = i") simp_all
  have "snd (B ! i) = snd (df ! i)"
    using lt by (simp add: B_def S_def nth_rename nth_strip_lower length_strip_lower)
  then have v: "snd (df ! i) = v" using j0(2) j0i by simp
  show ?thesis
  proof (cases "to_datetime parse v")
    case None
    then have "convert_date parse B = Inl DateParseError"
      using j0(3) by (simp add: convert_date_def)
    then show ?thesis using id None v by (simp add: normalization_def)
  next
    case (Some v')
    then obtain df2 where c1: "convert_date parse B = Inr df2"
      using j0(3) by (simp add: convert_date_def)
    have l2: "length df2 = length df" using convert_date_Inr(1) [OF c1] lB by simp
    have c2: "columns df2 = C[i := ''Date'']" using convert_date_Inr(2) [OF c1] cB by simp
    define S2 where "S2 = strip_lower df2"
    define E where "E = C[i := ''date'']"
    have cS2: "columns S2 = E"
      unfolding S2_def columns_strip_lower c2 E_def
      by (simp add: map_update canon_lower C_def map_std_names)
    have lE: "length E = length df" by (simp add: E_def lC)
    have Enth: "\<And>m. m < length df \<Longrightarrow> E ! m = (if m = i then ''date'' else C ! m)"
      by (simp add: E_def lC)
    have fd: "first_match ''date'' E = i"
      by (rule first_match_eqI) (use lt lE Enth pi contains_canon in auto)
    have fs: "first_match ''sales'' E = j"
      by (rule first_match_eqI) (use lt lE Enth pj ne contains_canon in auto)
    have fc: "first_match ''category'' E = k"
      by (rule first_match_eqI) (use lt lE Enth pk ne contains_canon in auto)
    have lS2: "length S2 = length df" by (simp add: S2_def length_strip_lower l2)
    obtain ds' where md: "matching ''date'' S2 = ''date'' # ds'"
      using matching_first [of "''date''" S2] cS2 fd lt lS2 Enth [of i] by auto
    obtain ss where ms: "matching ''sales'' S2 = C ! j # ss"
      using matching_first [of "''sales''" S2] cS2 fs lt lS2 Enth [of j] ne by auto
    obtain cs where mc: "matching ''category'' S2 = C ! k # cs"
      using matching_first [of "''category''" S2] cS2 fc lt lS2 Enth [of k] ne by auto
    define F where
      "F = rename (C ! k) ''Category'' (rename (C ! j) ''Sales'' (rename ''date'' ''Date'' S2))"
    have ic: "identify_columns parse df2 = convert_date parse F"
      using identify_columns_match [OF md [unfolded S2_def] ms [unfolded S2_def] mc [unfolded S2_def]]
      by (simp add: F_def S2_def)
    have r1: "map (\<lambda>n. if n = ''date'' then ''Date'' else n) E = C[i := ''Date'']"
    proof -
      have "count_list E ''date'' = 1"
      proof (rule unique_count_one [of i])
        show "i < length E" using lt lE by simp
        show "E ! i = ''date''" using Enth lt by simp
        fix m assume m: "m < length E" "E ! m = ''date''"
        show "m = i"
        proof (rule ccontr)
          assume "m \<noteq> i"
          then have "C ! m = ''date''" using m lE Enth [of m] by simp
          then have "m = i" using udate [of m] m(1) lE by simp
          then show False using \<open>m \<noteq> i\<close> by simp
        qed
      qed
      then have "map (\<lambda>n. if n = ''date'' then ''Date'' else n) E = E[i := ''Date'']"
        by (rule ren_unique) (use lt lE Enth in simp_all)
      then show ?thesis by (simp add: E_def)
    qed
    have r2: "map (\<lambda>n. if n = C ! j then ''Sales'' else n) (C[i := ''Date'']) =
              C[i := ''Date'', j := ''Sales'']"
    proof (rule ren_unique)
      show "j < length (C[i := ''Date''])" using lt lC by simp
      show "C[i := ''Date''] ! j = C ! j" using ne lt lC by simp
      show "count_list (C[i := ''Date'']) (C ! j) = 1"
      proof (rule unique_count_one [of j])
        show "j < length (C[i := ''Date''])" using lt lC by simp
        show "C[i := ''Date''] ! j = C ! j" using ne lt lC by simp
        fix m assume m: "m < length (C[i := ''Date''])" "C[i := ''Date''] ! m = C ! j"
        then have "m \<noteq> i" using nD [of j] lt lC by auto
        then show "m = j" using m uj [of m] lC by simp
      qed
    qed
    have r3: "map (\<lambda>n. if n = C ! k then ''Category'' else n) (C[i := ''Date'', j := ''Sales'']) =
              C[i := ''Date'', j := ''Sales'', k := ''Category'']"
    proof (rule ren_unique)
      show "k < length (C[i := ''Date'', j := ''Sales''])" using lt lC by simp
      show "C[i := ''Date'', j := ''Sales''] ! k = C ! k" using ne lt lC by simp
      show "count_list (C[i := ''Date'', j := ''Sales'']) (C ! k) = 1"
      proof (rule unique_count_one [of k])
        show "k < length (C[i := ''Date'', j := ''Sales''])" using lt lC by simp
        show "C[i := ''Date'', j := ''Sales''] ! k = C ! k" using ne lt lC by simp
        fix m assume m: "m < length (C[i := ''Date'', j := ''Sales''])"
          "C[i := ''Date'', j := ''Sales''] ! m = C ! k"
        then have "m \<noteq> j" using nS [of k] lt lC by auto
        moreover from m this have "m \<noteq> i" using nD [of k] lt lC by auto
        ultimately show "m = k" using m uk [of m] lC by simp
      qed
    qed
    have cF: "columns F = C[i := ''Date'', j := ''Sales'', k := ''Category'']"
      unfolding F_def columns_rename cS2 r1 r2 r3 ..
    have lF: "length F = length df" by (simp add: F_def length_rename lS2)
    have Fdate: "\<And>m. m < length F \<Longrightarrow> fst (F ! m) = ''Date'' \<Longrightarrow> m = i"
    proof -
      fix m assume m: "m < length F" "fst (F ! m) = ''Date''"
      then have "columns F ! m = ''Date''" by (simp add: columns_def)
      then show "m = i" using cF m(1) lF lC nD [of m] ne
        by (cases "m = k"; cases "m = j"; cases "m = i") simp_all
    qed
    have oneF: "count_list (columns F) ''Date'' = 1"
    proof (rule unique_count_one [of i])
      show "i < length (columns F)" using lt lF by (simp add: length_columns)
      show "columns F ! i = ''Date''" using cF lt lC ne by simp
      fix m assume "m < length (columns F)" "columns F ! m = ''Date''"
      then show "m = i" using Fdate [of m] by (simp add: columns_def)
    qed
    have vF: "map snd F = map snd df2"
      by (simp add: F_def S2_def values_rename values_strip_lower)
    have "convert_date parse F = Inr F"
    proof (rule convert_date_ready [OF oneF])
      fix m assume m: "m < length F" "fst (F ! m) = ''Date''"
      then have mi: "m = i" by (rule Fdate)
      have "snd (F ! m) = snd (df2 ! m)"
        using vF m(1) by (rule values_eq_nth)
      moreover have "fst (df2 ! i) = ''Date''"
        using c2 lt lC l2 columns_nth [of i df2] by simp
      ultimately show "\<forall>c\<in>set (snd (F ! m)). \<exists>t. c = Stamp t"
        using convert_date_Inr_stamps [OF c1, of i] lt l2 mi by simp
    qed
    then have "normalization parse df = Inr F"
      using id c1 ic by (simp add: normalization_def)
    then show ?thesis using cF Some v by (simp add: C_def)
  qed
qed

theorem first_matches_renamed_witness:
  "first_match ''date''
     (std_names [('' Date '', [Txt ''2023-01-01'']), (''Net_Sales'', [Num 3]),
                 (''Region'', [Txt ''North'']), (''Category'', [Txt ''Shoes''])]) = 0 \<and>
   first_match ''sales''
     (std_names [('' Date '', [Txt ''2023-01-01'']), (''Net_Sales'', [Num 3]),
                 (''Region'', [Txt ''North'']), (''Category'', [Txt ''Shoes''])]) = 1 \<and>
   first_match ''category''
     (std_names [('' Date '', [Txt ''2023-01-01'']), (''Net_Sales'', [Num 3]),
                 (''Region'', [Txt ''North'']), (''Category'', [Txt ''Shoes''])]) = 3 \<and>
   std_names [('' Date '', [Txt ''2023-01-01'']), (''Net_Sales'', [Num 3]),
              (''Region'', [Txt ''North'']), (''Category'', [Txt ''Shoes''])] =
     [''date'', ''net_sales'', ''region'', ''category''] \<and>
   to_datetime iso_parser
     (snd ([('' Date '', [Txt ''2023-01-01'']), (''Net_Sales'', [Num 3]),
            (''Region'', [Txt ''North'']), (''Category'', [Txt ''Shoes''])] ! 0)) =
     Some [Stamp \<lparr>year = 2023, month = 1, day = 1, time_of_day = 0\<rparr>] \<and>
   (\<exists>df'. normalization iso_parser
            [('' Date '', [Txt ''2023-01-01'']), (''Net_Sales'', [Num 3]),
             (''Region'', [Txt ''North'']), (''Category'', [Txt ''Shoes''])] = Inr df' \<and>
          columns df' = [''Date'', ''Sales'', ''region'', ''Category''])"
  (is "first_match _ (std_names ?T) = 0 \<and> _")
proof -
  have s: "std_names ?T = [''date'', ''net_sales'', ''region'', ''category'']" by code_simp
  have i: "0 = first_match ''date'' (std_names ?T)" by code_simp
  have j: "1 = first_match ''sales'' (std_names ?T)" by code_simp
  have k: "3 = first_match ''category'' (std_names ?T)" by code_simp
  have c: "count_list (std_names ?T) (std_names ?T ! 0) = 1"
          "count_list (std_names ?T) (std_names ?T ! 1) = 1"
          "count_list (std_names ?T) (std_names ?T ! 3) = 1"
    by code_simp+
  have d: "std_names ?T ! 0 = ''date''" by code_simp
  have t: "to_datetime iso_parser (snd (?T ! 0)) =
           Some [Stamp \<lparr>year = 2023, month = 1, day = 1, time_of_day = 0\<rparr>]" by code_simp
  then have tn: "to_datetime iso_parser (snd (?T ! 0)) \<noteq> None" by simp
  have "to_datetime iso_parser (snd (?T ! 0)) \<noteq> None \<longrightarrow>
        (\<exists>df'. normalization iso_parser ?T = Inr df' \<and>
               columns df' = (std_names ?T)[0 := ''Date'', 1 := ''Sales'', 3 := ''Category''])"
    by (rule first_matches_renamed [OF i j k _ _ _ _ _ _ c d, THEN conjunct2]) simp_all
  with tn have "\<exists>df'. normalization iso_parser ?T = Inr df' \<and>
               columns df' = (std_names ?T)[0 := ''Date'', 1 := ''Sales'', 3 := ''Category'']"
    by (rule rev_mp)
  moreover have "(std_names ?T)[0 := ''Date'', 1 := ''Sales'', 3 := ''Category''] =
                 [''Date'', ''Sales'', ''region'', ''Category'']"
    unfolding s by simp
  ultimately show ?thesis using s i j k t by simp
qed

theorem first_matches_renamed_counterexample:
  "first_match ''date'' (std_names [(''sales_date'', [Txt ''2023-01-01'']), (''sales'', [Num 3]),
                                     (''category'', [Txt ''Shoes''])]) = 0 \<and>
   first_match ''sales'' (std_names [(''sales_date'', [Txt ''2023-01-01'']), (''sales'', [Num 3]),
                                      (''category'', [Txt ''Shoes''])]) = 0 \<and>
   first_match ''category'' (std_names [(''sales_date'', [Txt ''2023-01-01'']), (''sales'', [Num 3]),
                                         (''category'', [Txt ''Shoes''])]) = 2 \<and>
   normalization iso_parser
     [(''sales_date'', [Txt ''2023-01-01'']), (''sales'', [Num 3]), (''category'', [Txt ''Shoes''])] =
   Inr [(''Date'', [Stamp \<lparr>year = 2023, month = 1, day = 1, time_of_day = 0\<rparr>]),
        (''Sales'', [Num 3]), (''Category'', [Txt ''Shoes''])] \<and>
   normalization iso_parser
     [(''date'', [Txt ''2023-01-01'']), ('' Sales'', [Num 3]), (''sales'', [Num 4]),
      (''category'', [Txt ''Shoes''])] =
   Inr [(''Date'', [Stamp \<lparr>year = 2023, month = 1, day = 1, time_of_day = 0\<rparr>]),
        (''Sales'', [Num 3]), (''Sales'', [Num 4]), (''Category'', [Txt ''Shoes''])] \<and>
   normalization iso_parser
     [(''date'', [Txt ''2023-01-01'']), (''category_sales'', [Num 3])] =
   Inr [(''Date'', [Stamp \<lparr>year = 2023, month = 1, day = 1, time_of_day = 0\<rparr>]),
        (''Sales'', [Num 3])]"
  by code_simp

lemma filter_head_first_match:
  assumes "filter (contains key) L = x # rest"
  shows "first_match key L < length L" "L ! first_match key L = x"
proof -
  have "first_match key L \<noteq> length L"
    using assms filter_Nil_first_match [of key L] by auto
  then show lt: "first_match key L < length L"
    using first_match_le [of key L] by simp
  from filter_first_match [OF lt] assms show "L ! first_match key L = x" by auto
qed

lemma canon_std:
  "lower (strip ''date'') = ''date''" "lower (strip ''sales'') = ''sales''"
  "lower (strip ''category'') = ''category''"
  by code_simp+

lemma count_list_map_iff:
  assumes "\<And>n. n \<in> set L \<Longrightarrow> (f n = y) = (g n = y)"
  shows "count_list (map f L) y = count_list (map g L) y"
  using assms by (induction L) auto

text \<open>
  C3 (amended). When normalization yields a table that has a column labelled Category and
  no column labelled sales or category in lower case, normalizing that table again yields
  the same table.
\<close>

theorem normalization_idempotent:
  assumes n: "normalization parse df = Inr df'"
    and hc: "''Category'' \<in> set (columns df')"
    and hs: "''sales'' \<notin> set (columns df')"
    and hk: "''category'' \<notin> set (columns df')"
  shows "normalization parse df' = Inr df'"
proof -
  from n obtain d ds df2 d' ds' s ss c cs where
    m1: "matching ''date'' (strip_lower df) = d # ds" and
    c1: "convert_date parse (rename d ''Date'' (strip_lower df)) = Inr df2" and
    m2: "matching ''date'' (strip_lower df2) = d' # ds'" and
    ms: "matching ''sales'' (strip_lower df2) = s # ss" and
    mc: "matching ''category'' (strip_lower df2) = c # cs" and
    c2: "convert_date parse
       (rename c ''Category'' (rename s ''Sales'' (rename d' ''Date'' (strip_lower df2)))) = Inr df'"
    by (rule normalization_Inr)
  have d': "d' = ''date''" using second_date_match [OF m1 c1 m2] .
  define E where "E = std_names df2"
  define r where "r = (\<lambda>n. if n = ''date'' then ''Date'' else if n = s then ''Sales''
                          else if n = c then ''Category'' else n)"
  define g where "g = (\<lambda>n. if n = ''date'' then ''date'' else if n = s then ''sales''
                          else if n = c then ''category'' else n)"
  define F where
    "F = rename c ''Category'' (rename s ''Sales'' (rename ''date'' ''Date'' (strip_lower df2)))"
  have c2': "convert_date parse F = Inr df'" using c2 d' by (simp add: F_def)
  have Estd: "\<And>n. n \<in> set E \<Longrightarrow> lower (strip n) = n \<and> n \<noteq> ''Date'' \<and> n \<noteq> ''Sales''
                \<and> n \<noteq> ''Category''"
    unfolding E_def using std_names_std by blast
  have sE: "s \<in> set E" "contains ''sales'' s"
    using matching_head [OF ms] by (simp_all add: E_def std_names_def)
  have cE: "c \<in> set E" "contains ''category'' c"
    using matching_head [OF mc] by (simp_all add: E_def std_names_def)
  have sne: "s \<noteq> ''date''" "s \<noteq> ''Date''" using sE Estd contains_canon by auto
  have cne: "c \<noteq> ''date''" "c \<noteq> ''Date''" "c \<noteq> ''Sales''" using cE Estd contains_canon by auto
  \<comment> \<open>the labels of the normalized table\<close>
  have T: "columns df' = map r E"
  proof -
    have "columns df' = columns F" using convert_date_Inr(2) [OF c2'] .
    also have "\<dots> = map (\<lambda>n. if (if (if n = ''date'' then ''Date'' else n) = s then ''Sales''
                 else (if n = ''date'' then ''Date'' else n)) = c then ''Category''
                 else (if (if n = ''date'' then ''Date'' else n) = s then ''Sales''
                 else (if n = ''date'' then ''Date'' else n))) E"
      by (simp add: F_def columns_rename E_def std_names_def comp_def)
    also have "\<dots> = map r E"
      by (rule map_cong) (use sne cne in \<open>auto simp: r_def\<close>)
    finally show ?thesis .
  qed
  have lE: "length E = length df'" using T by (metis length_columns length_map)
  have rDate: "\<And>n. n \<in> set E \<Longrightarrow> (r n = ''Date'') = (n = ''date'')"
    using Estd by (auto simp: r_def)
  have one: "count_list (columns df') ''Date'' = 1"
    using convert_date_Inr(3) [OF c2'] convert_date_Inr(2) [OF c2'] by simp
  have stamps: "\<And>m. m < length df' \<Longrightarrow> fst (df' ! m) = ''Date'' \<Longrightarrow>
                  \<forall>x\<in>set (snd (df' ! m)). \<exists>t. x = Stamp t"
    using convert_date_Inr_stamps [OF c2'] by blast
  have cs: "c \<noteq> s"
  proof
    assume "c = s"
    from hc T obtain n where "n \<in> set E" "r n = ''Category''" by auto
    then show False using Estd [of n] \<open>c = s\<close> by (auto simp: r_def split: if_splits)
  qed
  have keep: "\<And>n. n \<in> set E \<Longrightarrow> n \<noteq> ''date'' \<Longrightarrow> n \<noteq> s \<Longrightarrow> n \<noteq> c \<Longrightarrow>
                n \<noteq> ''sales'' \<and> n \<noteq> ''category''"
  proof -
    fix n assume a: "n \<in> set E" "n \<noteq> ''date''" "n \<noteq> s" "n \<noteq> c"
    then have "r n = n" by (simp add: r_def)
    then have "n \<in> set (columns df')" using a(1) T by force
    then show "n \<noteq> ''sales'' \<and> n \<noteq> ''category''" using hs hk by auto
  qed
  \<comment> \<open>the labels after trimming and lower-casing again\<close>
  define S' where "S' = strip_lower df'"
  have M: "columns S' = map g E"
  proof -
    have "columns S' = map (\<lambda>n. lower (strip (r n))) E"
      by (simp add: S'_def columns_strip_lower T comp_def)
    also have "\<dots> = map g E"
      by (rule map_cong) (use Estd in \<open>auto simp: r_def g_def canon_lower\<close>)
    finally show ?thesis .
  qed
  have gstd: "\<And>n. n \<in> set E \<Longrightarrow> lower (strip (g n)) = g n"
    using Estd by (auto simp: g_def canon_std)
  have gdate: "\<And>n. n \<in> set E \<Longrightarrow> (g n = ''date'') = (n = ''date'')"
    by (auto simp: g_def)
  \<comment> \<open>positions of the first matches\<close>
  have fE: "filter (contains ''date'') E = ''date'' # ds'"
       "filter (contains ''sales'') E = s # ss" "filter (contains ''category'') E = c # cs"
    using m2 ms mc d' by (simp_all add: matching_def E_def std_names_def)
  note pd = filter_head_first_match [OF fE(1)]
  note ps = filter_head_first_match [OF fE(2)]
  note pc = filter_head_first_match [OF fE(3)]
  have nth_g: "\<And>m. m < length E \<Longrightarrow> map g E ! m = g (E ! m)" by simp
  have fmd: "first_match ''date'' (map g E) = first_match ''date'' E"
  proof (rule first_match_eqI)
    show "first_match ''date'' E < length (map g E)" using pd(1) by simp
    show "contains ''date'' (map g E ! first_match ''date'' E)"
      using pd by (simp add: g_def contains_canon)
    fix m assume m: "m < first_match ''date'' E"
    then have "\<not> contains ''date'' (E ! m)" using first_match_props(2) [OF pd(1)] by simp
    moreover have "m < length E" using m pd(1) by simp
    ultimately show "\<not> contains ''date'' (map g E ! m)"
      using contains_canon by (auto simp: g_def)
  qed
  have fms: "first_match ''sales'' (map g E) = first_match ''sales'' E"
  proof (rule first_match_eqI)
    show "first_match ''sales'' E < length (map g E)" using ps(1) by simp
    show "contains ''sales'' (map g E ! first_match ''sales'' E)"
      using ps sne by (simp add: g_def contains_canon)
    fix m assume m: "m < first_match ''sales'' E"
    then have "\<not> contains ''sales'' (E ! m)" using first_match_props(2) [OF ps(1)] by simp
    moreover have "m < length E" using m ps(1) by simp
    ultimately show "\<not> contains ''sales'' (map g E ! m)"
      using contains_canon sE(2) by (auto simp: g_def)
  qed
  have fmc: "first_match ''category'' (map g E) = first_match ''category'' E"
  proof (rule first_match_eqI)
    show "first_match ''category'' E < length (map g E)" using pc(1) by simp
    show "contains ''category'' (map g E ! first_match ''category'' E)"
      using pc cne cs by (simp add: g_def contains_canon)
    fix m assume m: "m < first_match ''category'' E"
    then have "\<not> contains ''category'' (E ! m)" using first_match_props(2) [OF pc(1)] by simp
    moreover have "m < length E" using m pc(1) by simp
    ultimately show "\<not> contains ''category'' (map g E ! m)"
      using contains_canon cE(2) by (auto simp: g_def)
  qed
  have hd_d: "map g E ! first_match ''date'' (map g E) = ''date''"
    using pd fmd by (simp add: g_def)
  have hd_s: "map g E ! first_match ''sales'' (map g E) = ''sales''"
    using ps fms sne by (simp add: g_def)
  have hd_c: "map g E ! first_match ''category'' (map g E) = ''category''"
    using pc fmc cne cs by (simp add: g_def)
  \<comment> \<open>first pass on the normalized table\<close>
  have lS': "length S' = length df'" by (simp add: S'_def length_strip_lower)
  obtain x1 where md': "matching ''date'' S' = ''date'' # x1"
    using matching_first [of "''date''" S'] M fmd pd(1) hd_d lS' lE by auto
  define B' where "B' = rename ''date'' ''Date'' S'"
  have cB': "columns B' = map (\<lambda>n. if g n = ''date'' then ''Date'' else g n) E"
    by (simp add: B'_def columns_rename M comp_def)
  have vB': "map snd B' = map snd df'"
    by (simp add: B'_def S'_def values_rename values_strip_lower)
  have lB': "length B' = length df'" by (simp add: B'_def length_rename lS')
  have B'date: "\<And>m. m < length df' \<Longrightarrow> (fst (B' ! m) = ''Date'') = (fst (df' ! m) = ''Date'')"
  proof -
    fix m assume m: "m < length df'"
    then have mE: "m < length E" "E ! m \<in> set E" using lE by simp_all
    have "fst (B' ! m) = (if g (E ! m) = ''date'' then ''Date'' else g (E ! m))"
      using columns_nth [of m B'] cB' m lB' mE by simp
    moreover have "fst (df' ! m) = r (E ! m)"
      using columns_nth [of m df'] T m mE by simp
    moreover have "g (E ! m) \<noteq> ''Date''" using gstd [OF mE(2)] std_ne_canon(1) by metis
    ultimately show "(fst (B' ! m) = ''Date'') = (fst (df' ! m) = ''Date'')"
      using gdate [OF mE(2)] rDate [OF mE(2)] by simp
  qed
  have oneB': "count_list (columns B') ''Date'' = 1"
  proof -
    have "count_list (columns B') ''Date'' = count_list (map r E) ''Date''"
      unfolding cB'
    proof (rule count_list_map_iff)
      fix n assume nE: "n \<in> set E"
      have "g n \<noteq> ''Date''" using gstd [OF nE] std_ne_canon(1) by metis
      then show "((if g n = ''date'' then ''Date'' else g n) = ''Date'') = (r n = ''Date'')"
        using gdate [OF nE] rDate [OF nE] by simp
    qed
    then show ?thesis using one T by simp
  qed
  have cvB': "convert_date parse B' = Inr B'"
  proof (rule convert_date_ready [OF oneB'])
    fix m assume m: "m < length B'" "fst (B' ! m) = ''Date''"
    then have "fst (df' ! m) = ''Date''" using B'date [of m] lB' by simp
    moreover have "snd (B' ! m) = snd (df' ! m)" using vB' m(1) by (rule values_eq_nth)
    ultimately show "\<forall>x\<in>set (snd (B' ! m)). \<exists>t. x = Stamp t"
      using stamps [of m] m(1) lB' by simp
  qed
  have id': "identify_date parse df' = Inr B'"
    using identify_date_match [OF md' [unfolded S'_def]] cvB' by (simp add: B'_def S'_def)
  \<comment> \<open>second pass on the normalized table\<close>
  define S2' where "S2' = strip_lower B'"
  have cS2': "columns S2' = map g E"
  proof -
    have "columns S2' = map (\<lambda>n. lower (strip (if g n = ''date'' then ''Date'' else g n))) E"
      by (simp add: S2'_def columns_strip_lower cB' comp_def)
    also have "\<dots> = map g E"
      by (rule map_cong) (use gstd in \<open>auto simp: canon_lower\<close>)
    finally show ?thesis .
  qed
  have lS2': "length S2' = length df'" by (simp add: S2'_def length_strip_lower lB')
  obtain y1 where q1: "matching ''date'' S2' = ''date'' # y1"
    using matching_first [of "''date''" S2'] cS2' fmd pd(1) hd_d lS2' lE by auto
  obtain y2 where q2: "matching ''sales'' S2' = ''sales'' # y2"
    using matching_first [of "''sales''" S2'] cS2' fms ps(1) hd_s lS2' lE by auto
  obtain y3 where q3: "matching ''category'' S2' = ''category'' # y3"
    using matching_first [of "''category''" S2'] cS2' fmc pc(1) hd_c lS2' lE by auto
  define F' where
    "F' = rename ''category'' ''Category'' (rename ''sales'' ''Sales'' (rename ''date'' ''Date'' S2'))"
  have ic': "identify_columns parse B' = convert_date parse F'"
    using identify_columns_match [OF q1 [unfolded S2'_def] q2 [unfolded S2'_def] q3 [unfolded S2'_def]]
    by (simp add: F'_def S2'_def)
  have "columns F' = columns df'"
  proof -
    have "columns F' = map (\<lambda>n. if (if (if g n = ''date'' then ''Date'' else g n) = ''sales''
                 then ''Sales'' else (if g n = ''date'' then ''Date'' else g n)) = ''category''
                 then ''Category''
                 else (if (if g n = ''date'' then ''Date'' else g n) = ''sales'' then ''Sales''
                 else (if g n = ''date'' then ''Date'' else g n))) E"
      by (simp add: F'_def columns_rename cS2' comp_def)
    also have "\<dots> = map r E"
    proof (rule map_cong [OF refl])
      fix n assume nE: "n \<in> set E"
      consider "n = ''date''" | "n \<noteq> ''date''" "n = s" | "n \<noteq> ''date''" "n \<noteq> s" "n = c"
        | "n \<noteq> ''date''" "n \<noteq> s" "n \<noteq> c" by blast
      then show "(if (if (if g n = ''date'' then ''Date'' else g n) = ''sales''
                 then ''Sales'' else (if g n = ''date'' then ''Date'' else g n)) = ''category''
                 then ''Category''
                 else (if (if g n = ''date'' then ''Date'' else g n) = ''sales'' then ''Sales''
                 else (if g n = ''date'' then ''Date'' else g n))) = r n"
      proof cases
        case 1
        then show ?thesis by (simp add: g_def r_def)
      next
        case 2
        then show ?thesis by (simp add: g_def r_def)
      next
        case 3
        then show ?thesis by (simp add: g_def r_def)
      next
        case 4
        then show ?thesis using keep [OF nE] by (simp add: g_def r_def)
      qed
    qed
    finally show ?thesis using T by simp
  qed
  moreover have "map snd F' = map snd df'"
    by (simp add: F'_def S2'_def values_rename values_strip_lower vB')
  ultimately have "F' = df'" by (rule frame_eqI)
  moreover have "convert_date parse df' = Inr df'"
    by (rule convert_date_ready [OF one]) (use stamps in blast)
  ultimately show ?thesis
    using id' ic' by (simp add: normalization_def)
qed

theorem normalization_idempotent_witness:
  "normalization iso_parser
     [('' Date '', [Txt ''2023-01-01'', Txt ''2023-01-02'']), (''Net_Sales'', [Num 3, Num 4]),
      (''Region'', [Txt ''North'', Txt ''South'']), (''Category'', [Txt ''Shoes'', Txt ''Hats''])] =
   Inr [(''Date'', [Stamp \<lparr>year = 2023, month = 1, day = 1, time_of_day = 0\<rparr>,
                    Stamp \<lparr>year = 2023, month = 1, day = 2, time_of_day = 0\<rparr>]),
        (''Sales'', [Num 3, Num 4]),
        (''region'', [Txt ''North'', Txt ''South'']),
        (''Category'', [Txt ''Shoes'', Txt ''Hats''])] \<and>
   normalization iso_parser
     [(''Date'', [Stamp \<lparr>year = 2023, month = 1, day = 1, time_of_day = 0\<rparr>,
                    Stamp \<lparr>year = 2023, month = 1, day = 2, time_of_day = 0\<rparr>]),
        (''Sales'', [Num 3, Num 4]),
        (''region'', [Txt ''North'', Txt ''South'']),
        (''Category'', [Txt ''Shoes'', Txt ''Hats''])] =
   Inr [(''Date'', [Stamp \<lparr>year = 2023, month = 1, day = 1, time_of_day = 0\<rparr>,
                    Stamp \<lparr>year = 2023, month = 1, day = 2, time_of_day = 0\<rparr>]),
        (''Sales'', [Num 3, Num 4]),
        (''region'', [Txt ''North'', Txt ''South'']),
        (''Category'', [Txt ''Shoes'', Txt ''Hats''])]"
  (is "normalization iso_parser ?T = Inr ?T' \<and> _")
proof -
  have h: "normalization iso_parser ?T = Inr ?T'" by code_simp
  have c: "''Category'' \<in> set (columns ?T')" by (simp add: columns_def)
  have s: "''sales'' \<notin> set (columns ?T')" by (simp add: columns_def)
  have k: "''category'' \<notin> set (columns ?T')" by (simp add: columns_def)
  from normalization_idempotent [OF h c s k] h show ?thesis by (rule conjI [rotated])
qed

theorem normalization_idempotent_counterexample:
  "normalization iso_parser
     [(''date'', [Txt ''2023-01-01'']), (''net_sales'', [Num 3]), (''sales'', [Num 4]),
      (''category'', [Txt ''Shoes''])] =
   Inr [(''Date'', [Stamp \<lparr>year = 2023, month = 1, day = 1, time_of_day = 0\<rparr>]),
        (''Sales'', [Num 3]), (''sales'', [Num 4]), (''Category'', [Txt ''Shoes''])] \<and>
   normalization iso_parser
     [(''Date'', [Stamp \<lparr>year = 2023, month = 1, day = 1, time_of_day = 0\<rparr>]),
      (''Sales'', [Num 3]), (''sales'', [Num 4]), (''Category'', [Txt ''Shoes''])] =
   Inr [(''Date'', [Stamp \<lparr>year = 2023, month = 1, day = 1, time_of_day = 0\<rparr>]),
        (''Sales'', [Num 3]), (''Sales'', [Num 4]), (''Category'', [Txt ''Shoes''])] \<and>
   normalization iso_parser
     [(''date'', [Txt ''2023-01-01'']), (''category_sales'', [Num 3])] =
   Inr [(''Date'', [Stamp \<lparr>year = 2023, month = 1, day = 1, time_of_day = 0\<rparr>]),
        (''Sales'', [Num 3])] \<and>
   normalization iso_parser
     [(''Date'', [Stamp \<lparr>year = 2023, month = 1, day = 1, time_of_day = 0\<rparr>]),
      (''Sales'', [Num 3])] =
   Inl (MissingColumn ''Category'' [''Date'', ''Sales''])"
  by code_simp

section \<open>Missing columns\<close>

lemma count_list_ren:
  "y \<notin> set L \<Longrightarrow> count_list (map (\<lambda>n. if n = x then y else n) L) y = count_list L x"
  by (induction L) auto

lemma convert_date_duplicate:
  assumes "2 \<le> count_list (columns df) ''Date''"
  shows "convert_date parse df = Inl DuplicateKeys"
proof -
  have e: "(\<lambda>(n, v). n = ''Date'') = (\<lambda>x :: column. fst x = ''Date'')" by auto
  have f: "filter ((=) ''Date'') (map fst df) = map fst (filter (\<lambda>x. fst x = ''Date'') df)"
    by (induction df) auto
  have "2 \<le> length (filter (\<lambda>x :: column. fst x = ''Date'') df)"
    using assms f by (simp add: columns_def count_list_eq_length_filter del: length_filter_map)
  then obtain a b rest where "filter (\<lambda>x :: column. fst x = ''Date'') df = a # b # rest"
    by (cases "filter (\<lambda>x :: column. fst x = ''Date'') df" rule: list.exhaust;
        cases "tl (filter (\<lambda>x :: column. fst x = ''Date'') df)") auto
  then show ?thesis
    unfolding convert_date_def e by (cases a) simp
qed

lemma map_of_unique:
  assumes "count_list (map fst S) d = 1" "j < length S" "S ! j = (d, v)"
  shows "map_of S d = Some v"
proof -
  have "d \<in> fst ` set S" using assms(2,3) by (metis fst_conv image_eqI nth_mem)
  then obtain v' where v': "map_of S d = Some v'"
    by (metis domD dom_map_of_conv_image_fst)
  then have "(d, v') \<in> set S" by (rule map_of_SomeD)
  then obtain m where m: "m < length S" "S ! m = (d, v')" by (auto simp: in_set_conv_nth)
  have "m = j"
    using count_one_unique [OF assms(1), of j m] assms(2,3) m by simp
  then show ?thesis using v' m assms(3) by simp
qed

lemma filter_contains_ren:
  assumes "\<not> contains key y"
  shows "filter (contains key) (map (\<lambda>n. if n = x then y else n) L) =
         filter (contains key) (filter (\<lambda>n. n \<noteq> x) L)"
  using assms by (induction L) auto

text \<open>
  C7 (amended). Let the trimmed, lower-cased column names lack a name containing date, or
  one containing sales, or one containing category. Then normalization yields no table.
  When no name contains date, it reports Date and lists all the trimmed, lower-cased
  names. Otherwise the first name containing date is taken as the date column: when that
  name occurs more than once, or a value of that column does not convert, the run ends
  with that uncaught error; else it reports Sales when no other column contains sales, and
  Category when one does, and lists all the column names as they are then, the date column
  as Date and, in the report of Category, the first sales column as Sales.
\<close>

theorem missing_column_reported:
  assumes lacks: "matching ''date'' (strip_lower df) = [] \<or>
                  matching ''sales'' (strip_lower df) = [] \<or>
                  matching ''category'' (strip_lower df) = []"
  shows "\<exists>e. normalization parse df = Inl e \<and>
           (case matching ''date'' (strip_lower df) of
              [] \<Rightarrow> e = MissingColumn ''Date'' (std_names df)
            | d # ds \<Rightarrow>
                e = (if count_list (std_names df) d \<noteq> 1 then DuplicateKeys
                     else if Option.bind (map_of (strip_lower df) d) (to_datetime parse) = None
                       then DateParseError
                     else (case filter (contains ''sales'') (filter (\<lambda>n. n \<noteq> d) (std_names df)) of
                             [] \<Rightarrow>
                               MissingColumn ''Sales''
                                 (map (\<lambda>n. if n = d \<or> n = ''date'' then ''Date'' else n)
                                      (std_names df))
                           | s # ss \<Rightarrow>
                               MissingColumn ''Category''
                                 (map (\<lambda>n. if n = d \<or> n = ''date'' then ''Date''
                                            else if n = s then ''Sales'' else n)
                                      (std_names df)))))"
proof (cases "matching ''date'' (strip_lower df)")
  case Nil
  then have "normalization parse df = Inl (MissingColumn ''Date'' (std_names df))"
    by (simp add: normalization_def identify_date_def std_names_def)
  then show ?thesis using Nil by simp
next
  case (Cons d ds)
  define S where "S = strip_lower df"
  define C where "C = std_names df"
  define B where "B = rename d ''Date'' S"
  have CS: "columns S = C" by (simp add: C_def S_def std_names_def)
  have m1: "matching ''date'' S = d # ds" using Cons by (simp add: S_def)
  have dC: "d \<in> set C" "contains ''date'' d" using matching_head [OF m1] CS by simp_all
  have nD: "''Date'' \<notin> set C" using std_names_std(2) [of "''Date''" df] by (auto simp: C_def)
  have cB: "columns B = map (\<lambda>n. if n = d then ''Date'' else n) C"
    by (simp add: B_def columns_rename CS)
  have cnt: "count_list (columns B) ''Date'' = count_list C d"
    unfolding cB using nD by (rule count_list_ren)
  have id: "identify_date parse df = convert_date parse B"
    using identify_date_match [OF Cons] by (simp add: B_def S_def)
  have pos: "0 < count_list C d" using dC(1) count_list_0_iff [of C d] by auto
  show ?thesis
  proof (cases "count_list C d = 1")
    case False
    then have "2 \<le> count_list (columns B) ''Date''" using pos cnt by simp
    then have "convert_date parse B = Inl DuplicateKeys" by (rule convert_date_duplicate)
    then have "normalization parse df = Inl DuplicateKeys" using id by (simp add: normalization_def)
    then show ?thesis using Cons False by (simp add: C_def)
  next
    case one: True
    then have oneB: "count_list (columns B) ''Date'' = 1" using cnt by simp
    from filter_date_single [OF oneB] obtain j v where j: "j < length B"
      "B ! j = (''Date'', v)" "filter (\<lambda>(n, v). n = ''Date'') B = [(''Date'', v)]" by blast
    have jS: "j < length S" using j(1) by (simp add: B_def length_rename)
    have "fst (S ! j) \<in> set C" using jS CS by (metis columns_nth length_columns nth_mem)
    then have "fst (S ! j) \<noteq> ''Date''" using nD by auto
    then have Sj: "S ! j = (d, v)"
      using j(2) jS by (cases "S ! j") (auto simp: B_def nth_rename split: if_splits)
    have mo: "map_of S d = Some v"
      by (rule map_of_unique [OF _ jS Sj]) (use one CS in \<open>simp add: columns_def\<close>)
    show ?thesis
    proof (cases "to_datetime parse v")
      case None
      then have "convert_date parse B = Inl DateParseError" using j(3) by (simp add: convert_date_def)
      then have "normalization parse df = Inl DateParseError" using id by (simp add: normalization_def)
      then show ?thesis using Cons one mo None by (simp add: C_def S_def)
    next
      case (Some v')
      then obtain df2 where c1: "convert_date parse B = Inr df2"
        using j(3) by (simp add: convert_date_def)
      define S2 where "S2 = strip_lower df2"
      define E where "E = map (\<lambda>n. if n = d then ''date'' else n) C"
      have cS2: "columns S2 = E"
        using columns_second_pass [OF Cons c1 [unfolded B_def S_def]]
        by (simp add: S2_def E_def C_def std_names_def)
      have "''date'' \<in> set (filter (contains ''date'') E)"
        using dC(1) by (auto simp: E_def contains_canon)
      then obtain d' ds' where m2: "matching ''date'' S2 = d' # ds'"
        unfolding matching_def cS2 by (cases "filter (contains ''date'') E") auto
      have d': "d' = ''date''"
        using second_date_match [OF Cons c1 [unfolded B_def S_def] m2 [unfolded S2_def]] .
      define rest where "rest = filter (contains ''sales'') (filter (\<lambda>n. n \<noteq> d) C)"
      have ms: "matching ''sales'' S2 = rest"
        unfolding matching_def cS2 E_def rest_def
        by (rule filter_contains_ren) (simp add: contains_canon)
      let ?seen = "map (\<lambda>n. if n = d \<or> n = ''date'' then ''Date'' else n) C"
      have seen: "columns (rename ''date'' ''Date'' S2) = ?seen"
        by (simp add: columns_rename cS2 E_def comp_def) 
      have ic: "identify_columns parse df2 =
                (case rename_loop (column_map S2) S2 of Inl e \<Rightarrow> Inl e
                 | Inr df' \<Rightarrow> convert_date parse df')"
        by (simp add: identify_columns_def S2_def Let_def)
      have nz: "normalization parse df = identify_columns parse df2"
        using id c1 by (simp add: normalization_def)
      have nonone: "Option.bind (map_of (strip_lower df) d) (to_datetime parse) \<noteq> None"
        using mo Some by (simp add: S_def)
      show ?thesis
      proof (cases rest)
        case Nil
        then have "rename_loop (column_map S2) S2 = Inl (MissingColumn ''Sales'' ?seen)"
          using m2 d' ms seen by (simp add: column_map_def canon_capitalize)
        then have "normalization parse df = Inl (MissingColumn ''Sales'' ?seen)"
          using nz ic by simp
        then show ?thesis using Cons one nonone Nil
          by (simp add: C_def rest_def)
      next
        case (Cons s ss)
        then have "s \<in> set (filter (contains ''sales'') (filter (\<lambda>n. n \<noteq> d) C))"
          by (simp add: rest_def)
        then have sC: "s \<in> set C" "contains ''sales'' s" by auto
        then have "matching ''sales'' (strip_lower df) \<noteq> []"
          using CS by (auto simp: matching_def S_def filter_empty_conv)
        then have "matching ''category'' (strip_lower df) = []"
          using lacks \<open>matching ''date'' (strip_lower df) = d # ds\<close> by simp
        then have "\<forall>n\<in>set C. \<not> contains ''category'' n"
          using CS by (simp add: matching_def S_def filter_empty_conv)
        then have mc: "matching ''category'' S2 = []"
          unfolding matching_def cS2 E_def by (auto simp: filter_empty_conv contains_canon)
        have sD: "s \<noteq> ''Date''" using sC(1) nD by auto
        have "columns (rename s ''Sales'' (rename ''date'' ''Date'' S2)) =
              map (\<lambda>n. if n = d \<or> n = ''date'' then ''Date'' else if n = s then ''Sales'' else n) C"
          unfolding columns_rename [of s] seen using sD by (simp add: comp_def)
        then have "rename_loop (column_map S2) S2 =
              Inl (MissingColumn ''Category''
                (map (\<lambda>n. if n = d \<or> n = ''date'' then ''Date'' else if n = s then ''Sales'' else n) C))"
          using m2 d' ms mc Cons by (simp add: column_map_def canon_capitalize)
        then have "normalization parse df =
              Inl (MissingColumn ''Category''
                (map (\<lambda>n. if n = d \<or> n = ''date'' then ''Date'' else if n = s then ''Sales'' else n) C))"
          using nz ic by simp
        then show ?thesis
          using \<open>matching ''date'' (strip_lower df) = d # ds\<close> one nonone Cons
          by (simp add: C_def rest_def)
      qed
    qed
  qed
qed

theorem missing_column_reported_witness:
  "matching ''sales'' (strip_lower [(''Date'', [Txt ''2023-01-01'']), (''Category'', [Txt ''Shoes''])]) = [] \<and>
   normalization iso_parser [(''Date'', [Txt ''2023-01-01'']), (''Category'', [Txt ''Shoes''])] =
     Inl (MissingColumn ''Sales'' [''Date'', ''category''])"
  (is "matching ''sales'' (strip_lower ?T) = [] \<and> _")
proof -
  have ms: "matching ''sales'' (strip_lower ?T) = []" by code_simp
  then have l: "matching ''date'' (strip_lower ?T) = [] \<or> matching ''sales'' (strip_lower ?T) = [] \<or>
                matching ''category'' (strip_lower ?T) = []" by simp
  have m: "matching ''date'' (strip_lower ?T) = [''date'']" by code_simp
  have sn: "std_names ?T = [''date'', ''category'']" by code_simp
  have b: "Option.bind (map_of (strip_lower ?T) ''date'') (to_datetime iso_parser) =
           Some [Stamp \<lparr>year = 2023, month = 1, day = 1, time_of_day = 0\<rparr>]" by code_simp
  have r: "filter (contains ''sales'') (filter (\<lambda>n. n \<noteq> ''date'') [''date'', ''category'']) = []"
    by code_simp
  from missing_column_reported [OF l, of iso_parser] obtain e where
    e: "normalization iso_parser ?T = Inl e"
    and c: "(case matching ''date'' (strip_lower ?T) of
              [] \<Rightarrow> e = MissingColumn ''Date'' (std_names ?T)
            | d # ds \<Rightarrow>
                e = (if count_list (std_names ?T) d \<noteq> 1 then DuplicateKeys
                     else if Option.bind (map_of (strip_lower ?T) d) (to_datetime iso_parser) = None
                       then DateParseError
                     else (case filter (contains ''sales'') (filter (\<lambda>n. n \<noteq> d) (std_names ?T)) of
                             [] \<Rightarrow>
                               MissingColumn ''Sales''
                                 (map (\<lambda>n. if n = d \<or> n = ''date'' then ''Date'' else n)
                                      (std_names ?T))
                           | s # ss \<Rightarrow>
                               MissingColumn ''Category''
                                 (map (\<lambda>n. if n = d \<or> n = ''date'' then ''Date''
                                            else if n = s then ''Sales'' else n)
                                      (std_names ?T)))))"
    by blast
  from c have "e = MissingColumn ''Sales'' [''Date'', ''category'']"
    unfolding m sn list.case b r by simp
  with e ms show ?thesis by simp
qed

theorem missing_column_reported_counterexample:
  "matching ''sales'' (strip_lower [(''date'', [Txt ''soon'']), (''category'', [Txt ''Shoes''])]) = [] \<and>
   normalization iso_parser [(''date'', [Txt ''soon'']), (''category'', [Txt ''Shoes''])] =
     Inl DateParseError \<and>
   matching ''sales''
     (strip_lower [('' date'', [Txt ''2023-01-01'']), (''date'', [Txt ''2023-01-02'']),
                   (''category'', [Txt ''Shoes''])]) = [] \<and>
   normalization iso_parser
     [('' date'', [Txt ''2023-01-01'']), (''date'', [Txt ''2023-01-02'']),
      (''category'', [Txt ''Shoes''])] = Inl DuplicateKeys \<and>
   matching ''sales'' (strip_lower [(''sales_date'', [Txt ''2023-01-01''])]) = [''sales_date''] \<and>
   matching ''category'' (strip_lower [(''sales_date'', [Txt ''2023-01-01''])]) = [] \<and>
   normalization iso_parser [(''sales_date'', [Txt ''2023-01-01''])] =
     Inl (MissingColumn ''Sales'' [''Date''])"
  by code_simp

section \<open>Total sales\<close>

lemma wrap64_id: "- (2 ^ 63) \<le> x \<Longrightarrow> x < 2 ^ 63 \<Longrightarrow> wrap64 x = x"
  by (simp add: wrap64_def)

lemma wrap64_range: "- (2 ^ 63) \<le> wrap64 x \<and> wrap64 x < 2 ^ 63"
  by (simp add: wrap64_def)

lemma char_of_digit:
  "char_of (48::nat) = CHR ''0''" "char_of (49::nat) = CHR ''1''" "char_of (50::nat) = CHR ''2''"
  "char_of (51::nat) = CHR ''3''" "char_of (52::nat) = CHR ''4''" "char_of (53::nat) = CHR ''5''"
  "char_of (54::nat) = CHR ''6''" "char_of (55::nat) = CHR ''7''" "char_of (56::nat) = CHR ''8''"
  "char_of (57::nat) = CHR ''9''"
  by code_simp+

lemma digit_minus: "digit CHR ''-'' = None"
  by code_simp

lemma digits_are_digits: "c \<in> set (digits n) \<Longrightarrow> digit c \<noteq> None"
proof (induction n rule: digits.induct)
  case (1 n)
  show ?case
  proof (cases "n < 10")
    case True
    then have "digits n = [char_of (48 + n)]" by (subst digits.simps) simp
    then show ?thesis using 1(2) True by (simp add: digit_char_of)
  next
    case False
    then have d: "digits n = digits (n div 10) @ [char_of (48 + n mod 10)]"
      by (subst digits.simps) simp
    have "digit (char_of (48 + n mod 10)) = Some (n mod 10)" by (rule digit_char_of) simp
    then show ?thesis using 1 False d by auto
  qed
qed

lemma read_int_str: "read_int (str i) = Some i"
proof (cases "i < 0")
  case True
  then show ?thesis by (simp add: read_int_def str_def number_digits)
next
  case False
  obtain c cs where d: "digits (nat i) = c # cs"
    using digits_nonempty [of "nat i"] by (cases "digits (nat i)") auto
  then have "digit c \<noteq> None" using digits_are_digits [of c "nat i"] by simp
  then have "c \<noteq> CHR ''-''" using digit_minus by auto
  moreover have "number (c # cs) = Some (nat i)" using number_digits [of "nat i"] d by simp
  ultimately show ?thesis using False d by (simp add: read_int_def str_def)
qed

text \<open>
  C4 (amended). For a table of rows, whose Sales column holds 64-bit integers, the Total
  Sales metric is the decimal text of the sum of the Sales values reduced to the signed
  64-bit range, followed by the word units. When the sum of the Sales values lies in that
  range, the metric is the decimal text of that sum, and the text denotes that sum. On the
  empty table of rows the metric is the text 0 units. For an empty floating-point Sales
  column it is the text 0.0 units.
\<close>

theorem total_sales_sum:
  "total_sales float_text (sales_series df) =
     str (wrap64 (\<Sum>i<length df. Sales (df ! i))) @ '' units'' \<and>
   (- (2 ^ 63) \<le> (\<Sum>i<length df. Sales (df ! i)) \<and> (\<Sum>i<length df. Sales (df ! i)) < 2 ^ 63 \<longrightarrow>
      total_sales float_text (sales_series df) =
        str (\<Sum>i<length df. Sales (df ! i)) @ '' units'' \<and>
      read_int (str (\<Sum>i<length df. Sales (df ! i))) = Some (\<Sum>i<length df. Sales (df ! i))) \<and>
   total_sales float_text (sales_series []) = ''0 units'' \<and>
   total_sales float_text (Float64 []) = ''0.0 units''"
proof (intro conjI impI)
  have e: "sum_list (map Sales df) = (\<Sum>i<length df. Sales (df ! i))"
    by (simp add: sum_list_sum_nth atLeast0LessThan)
  show w: "total_sales float_text (sales_series df) =
        str (wrap64 (\<Sum>i<length df. Sales (df ! i))) @ '' units''"
    by (simp add: total_sales_def sales_series_def e)
  show "total_sales float_text (sales_series df) = str (\<Sum>i<length df. Sales (df ! i)) @ '' units''"
    if "- (2 ^ 63) \<le> (\<Sum>i<length df. Sales (df ! i)) \<and> (\<Sum>i<length df. Sales (df ! i)) < 2 ^ 63"
    using that w by (simp add: wrap64_id)
  show "read_int (str (\<Sum>i<length df. Sales (df ! i))) = Some (\<Sum>i<length df. Sales (df ! i))"
    by (rule read_int_str)
  have "wrap64 0 = 0" by (simp add: wrap64_def)
  then show "total_sales float_text (sales_series []) = ''0 units''"
    by (simp add: total_sales_def sales_series_def str_def digits_0)
  show "total_sales float_text (Float64 []) = ''0.0 units''"
    by (simp add: total_sales_def)
qed

theorem total_sales_sum_witness:
  "total_sales (\<lambda>xs :: unit list. [])
     (sales_series
       [\<lparr>Date = \<lparr>year = 2023, month = 1, day = 1, time_of_day = 0\<rparr>, Category = ''Dresses'', Sales = 10\<rparr>,
        \<lparr>Date = \<lparr>year = 2023, month = 1, day = 2, time_of_day = 0\<rparr>, Category = ''Dresses'', Sales = 20\<rparr>,
        \<lparr>Date = \<lparr>year = 2023, month = 1, day = 1, time_of_day = 0\<rparr>, Category = ''Shoes'', Sales = 5\<rparr>]) =
   ''35 units''"
  (is "total_sales ?f (sales_series ?df) = ?res")
proof -
  have s: "(\<Sum>i<length ?df. Sales (?df ! i)) = 35"
    by (simp add: lessThan_Suc numeral_3_eq_3)
  then have r: "- (2 ^ 63) \<le> (\<Sum>i<length ?df. Sales (?df ! i)) \<and>
                (\<Sum>i<length ?df. Sales (?df ! i)) < 2 ^ 63" by simp
  have "str 35 @ '' units'' = ''35 units''" by code_simp
  then have t: "str (\<Sum>i<length ?df. Sales (?df ! i)) @ '' units'' = ?res" using s by simp
  from total_sales_sum [of ?f ?df, THEN conjunct2, THEN conjunct1, rule_format, OF r]
  have "total_sales ?f (sales_series ?df) = str (\<Sum>i<length ?df. Sales (?df ! i)) @ '' units''"
    by (rule conjunct1)
  then show ?thesis using t by (rule trans)
qed

theorem total_sales_sum_counterexample:
  "total_sales (\<lambda>xs :: unit list. [])
     (sales_series
       [\<lparr>Date = \<lparr>year = 2023, month = 1, day = 1, time_of_day = 0\<rparr>, Category = ''Shoes'',
         Sales = 9223372036854775807\<rparr>,
        \<lparr>Date = \<lparr>year = 2023, month = 1, day = 2, time_of_day = 0\<rparr>, Category = ''Shoes'',
         Sales = 1\<rparr>]) =
   ''-9223372036854775808 units'' \<and>
   total_sales (\<lambda>xs :: unit list. []) (Float64 []) = ''0.0 units''"
  by (simp add: total_sales_def sales_series_def wrap64_def str_def digits.simps char_of_digit)

section \<open>Top selling category\<close>

lemma groupby_sum_nth:
  assumes "i < length (groupby_sum df)"
  shows "groupby_sum df ! i =
         (sort (remdups (map Category df)) ! i,
          wrap64 (sum_list (map Sales
            (filter (\<lambda>r. Category r = sort (remdups (map Category df)) ! i) df))))"
  using assms by (simp add: groupby_sum_def)

text \<open>
  C6 (amended). On the empty table the Top Selling Category metric is the text N/A. On a
  non-empty table it is a category of the table whose summed Sales, reduced to the signed
  64-bit range, is at least the reduced sum of every category of the table. When the
  summed Sales of every category lies in that range, it is a category whose summed Sales
  is at least the summed Sales of every category of the table.
\<close>

theorem top_selling_category_maximal:
  "top_selling_category [] = Some ''N/A'' \<and>
   (df \<noteq> [] \<longrightarrow>
      (\<exists>c\<in>Category ` set df.
         top_selling_category df = Some c \<and>
         (\<forall>c'\<in>Category ` set df.
            wrap64 (sum_list (map Sales (filter (\<lambda>r. Category r = c') df))) \<le>
            wrap64 (sum_list (map Sales (filter (\<lambda>r. Category r = c) df)))) \<and>
         ((\<forall>c'\<in>Category ` set df.
             - (2 ^ 63) \<le> sum_list (map Sales (filter (\<lambda>r. Category r = c') df)) \<and>
             sum_list (map Sales (filter (\<lambda>r. Category r = c') df)) < 2 ^ 63) \<longrightarrow>
          (\<forall>c'\<in>Category ` set df.
             sum_list (map Sales (filter (\<lambda>r. Category r = c') df)) \<le>
             sum_list (map Sales (filter (\<lambda>r. Category r = c) df))))))"
proof (intro conjI impI)
  show "top_selling_category [] = Some ''N/A''" by (simp add: top_selling_category_def)
next
  assume ne: "df \<noteq> []"
  define cats where "cats = sort (remdups (map Category df))"
  define total where "total = (\<lambda>c. sum_list (map Sales (filter (\<lambda>r. Category r = c) df)))"
  have sc: "set cats = Category ` set df" by (simp add: cats_def)
  have lg: "length (groupby_sum df) = length cats" by (simp add: groupby_sum_def cats_def)
  have nth: "\<And>j. j < length cats \<Longrightarrow> groupby_sum df ! j = (cats ! j, wrap64 (total (cats ! j)))"
    using groupby_sum_nth [of _ df] lg by (simp add: cats_def total_def)
  have "cats \<noteq> []" using ne sc by auto
  then have "groupby_sum df \<noteq> []" using lg by auto
  from idxmax_first_max [OF this] obtain i where i: "i < length (groupby_sum df)"
    "idxmax (groupby_sum df) = Some (fst (groupby_sum df ! i))"
    "\<forall>j<length (groupby_sum df). snd (groupby_sum df ! j) \<le> snd (groupby_sum df ! i)"
    by blast
  have il: "i < length cats" using i(1) lg by simp
  have top: "top_selling_category df = Some (cats ! i)"
    using ne i(2) nth [OF il] by (simp add: top_selling_category_def)
  have mem: "cats ! i \<in> Category ` set df" using il sc by (metis nth_mem)
  have w: "wrap64 (total c') \<le> wrap64 (total (cats ! i))" if "c' \<in> Category ` set df" for c'
  proof -
    from that sc obtain j where j: "j < length cats" "cats ! j = c'"
      by (metis in_set_conv_nth)
    then have "snd (groupby_sum df ! j) \<le> snd (groupby_sum df ! i)" using i(3) lg by simp
    then show ?thesis using nth [OF j(1)] nth [OF il] j(2) by simp
  qed
  have a: "\<forall>c'\<in>Category ` set df. total c' \<le> total (cats ! i)"
    if r: "\<forall>c'\<in>Category ` set df. - (2 ^ 63) \<le> total c' \<and> total c' < 2 ^ 63"
  proof
    fix c' assume c': "c' \<in> Category ` set df"
    have "wrap64 (total c') = total c'" using r c' wrap64_id [of "total c'"] by blast
    moreover have "wrap64 (total (cats ! i)) = total (cats ! i)"
      using r mem wrap64_id [of "total (cats ! i)"] by blast
    ultimately show "total c' \<le> total (cats ! i)" using w [OF c'] by simp
  qed
  from top mem w a show "\<exists>c\<in>Category ` set df.
         top_selling_category df = Some c \<and>
         (\<forall>c'\<in>Category ` set df.
            wrap64 (sum_list (map Sales (filter (\<lambda>r. Category r = c') df))) \<le>
            wrap64 (sum_list (map Sales (filter (\<lambda>r. Category r = c) df)))) \<and>
         ((\<forall>c'\<in>Category ` set df.
             - (2 ^ 63) \<le> sum_list (map Sales (filter (\<lambda>r. Category r = c') df)) \<and>
             sum_list (map Sales (filter (\<lambda>r. Category r = c') df)) < 2 ^ 63) \<longrightarrow>
          (\<forall>c'\<in>Category ` set df.
             sum_list (map Sales (filter (\<lambda>r. Category r = c') df)) \<le>
             sum_list (map Sales (filter (\<lambda>r. Category r = c) df))))"
    unfolding total_def by blast
qed

theorem top_selling_category_maximal_witness:
  "top_selling_category
     [\<lparr>Date = \<lparr>year = 2023, month = 1, day = 1, time_of_day = 0\<rparr>, Category = ''Shoes'', Sales = 25\<rparr>,
      \<lparr>Date = \<lparr>year = 2023, month = 1, day = 1, time_of_day = 0\<rparr>, Category = ''Dresses'', Sales = 10\<rparr>,
      \<lparr>Date = \<lparr>year = 2023, month = 1, day = 2, time_of_day = 0\<rparr>, Category = ''Dresses'', Sales = 20\<rparr>] =
   Some ''Dresses''"
  (is "top_selling_category ?df = _")
proof -
  have ne: "?df \<noteq> []" by simp
  have r: "\<forall>c'\<in>Category ` set ?df.
             - (2 ^ 63) \<le> sum_list (map Sales (filter (\<lambda>r. Category r = c') ?df)) \<and>
             sum_list (map Sales (filter (\<lambda>r. Category r = c') ?df)) < 2 ^ 63"
    by simp
  from top_selling_category_maximal [of ?df, THEN conjunct2, rule_format, OF ne]
  obtain c where c: "c \<in> Category ` set ?df" "top_selling_category ?df = Some c"
    "(\<forall>c'\<in>Category ` set ?df.
             - (2 ^ 63) \<le> sum_list (map Sales (filter (\<lambda>r. Category r = c') ?df)) \<and>
             sum_list (map Sales (filter (\<lambda>r. Category r = c') ?df)) < 2 ^ 63) \<longrightarrow>
     (\<forall>c'\<in>Category ` set ?df.
        sum_list (map Sales (filter (\<lambda>r. Category r = c') ?df)) \<le>
        sum_list (map Sales (filter (\<lambda>r. Category r = c) ?df)))"
    by blast
  from c(3) r have m: "\<forall>c'\<in>Category ` set ?df.
        sum_list (map Sales (filter (\<lambda>r. Category r = c') ?df)) \<le>
        sum_list (map Sales (filter (\<lambda>r. Category r = c) ?df))" by (rule mp)
  from c(1) have "c = ''Shoes'' \<or> c = ''Dresses''" by auto
  moreover have "c \<noteq> ''Shoes''"
  proof
    assume "c = ''Shoes''"
    with m [rule_format, of "''Dresses''"] show False by simp
  qed
  ultimately show ?thesis using c(2) by simp
qed

theorem top_selling_category_maximal_counterexample:
  "top_selling_category
     [\<lparr>Date = \<lparr>year = 2023, month = 1, day = 1, time_of_day = 0\<rparr>, Category = ''A'',
        Sales = 4611686018427387904\<rparr>,
      \<lparr>Date = \<lparr>year = 2023, month = 1, day = 2, time_of_day = 0\<rparr>, Category = ''A'',
        Sales = 4611686018427387904\<rparr>,
      \<lparr>Date = \<lparr>year = 2023, month = 1, day = 3, time_of_day = 0\<rparr>, Category = ''B'',
        Sales = 1\<rparr>] = Some ''B'' \<and>
   sum_list (map Sales (filter (\<lambda>r. Category r = ''A'')
     [\<lparr>Date = \<lparr>year = 2023, month = 1, day = 1, time_of_day = 0\<rparr>, Category = ''A'',
        Sales = 4611686018427387904\<rparr>,
      \<lparr>Date = \<lparr>year = 2023, month = 1, day = 2, time_of_day = 0\<rparr>, Category = ''A'',
        Sales = 4611686018427387904\<rparr>,
      \<lparr>Date = \<lparr>year = 2023, month = 1, day = 3, time_of_day = 0\<rparr>, Category = ''B'',
        Sales = 1\<rparr>])) = 9223372036854775808"
  by (simp add: top_selling_category_def groupby_sum_def idxmax_def wrap64_def)

end
